theory Spec2Isabelle
  imports Complex_Main "HOL-Library.Word" "HOL-Library.Sublist" "HOL-Library.Multiset"
begin

section \<open>JavaScript strings\<close>

text \<open>
  The module \<^verbatim>\<open>server/routes/ai.js\<close> works on JavaScript strings, which are finite
  sequences of UTF-16 code units. A string is modelled as the list of its code units,
  so that \<^verbatim>\<open>includes\<close>, \<^verbatim>\<open>split\<close>, \<^verbatim>\<open>trim\<close> and the regular expressions see
  exactly the units the engine sees. ASCII literals of the source are written
  \<open>js ''...''\<close>.
\<close>

type_synonym code_unit = "16 word"
type_synonym jsstring = "code_unit list"

definition cu :: "char \<Rightarrow> code_unit" where
  "cu c = of_nat (of_char c)"

definition js :: "string \<Rightarrow> jsstring" where
  "js = map cu"

text \<open>ECMAScript \<^verbatim>\<open>WhiteSpace\<close> (tab, VT, FF, ZWNBSP and the category Zs) and
  \<^verbatim>\<open>LineTerminator\<close> (LF, CR, LS, PS).\<close>

definition is_white_space :: "code_unit \<Rightarrow> bool" where
  "is_white_space c \<longleftrightarrow>
     c = 0x09 \<or> c = 0x0B \<or> c = 0x0C \<or> c = 0x20 \<or> c = 0xA0 \<or> c = 0x1680 \<or>
     (0x2000 \<le> c \<and> c \<le> 0x200A) \<or> c = 0x202F \<or> c = 0x205F \<or> c = 0x3000 \<or> c = 0xFEFF"

definition is_line_terminator :: "code_unit \<Rightarrow> bool" where
  "is_line_terminator c \<longleftrightarrow> c = 0x0A \<or> c = 0x0D \<or> c = 0x2028 \<or> c = 0x2029"

definition is_trimmable :: "code_unit \<Rightarrow> bool" where
  "is_trimmable c \<longleftrightarrow> is_white_space c \<or> is_line_terminator c"

text \<open>\<^verbatim>\<open>String.prototype.trim\<close>: white space and line terminators are removed from both
  ends.\<close>

definition trim :: "jsstring \<Rightarrow> jsstring" where
  "trim s = rev (dropWhile is_trimmable (rev (dropWhile is_trimmable s)))"

text \<open>\<^verbatim>\<open>String.prototype.includes(t)\<close> from position 0: is \<open>t\<close> found at some index of
  \<open>s\<close>? The search tries every index from the left, the end of the string included
  (where only the empty string is found).\<close>

fun str_includes :: "jsstring \<Rightarrow> jsstring \<Rightarrow> bool" where
  "str_includes [] t = (t = [])"
| "str_includes (x # xs) t = (prefix t (x # xs) \<or> str_includes xs t)"

text \<open>\<^verbatim>\<open>String.prototype.split(sep)\<close> for a separator of one code unit (the source splits
  on \<^verbatim>\<open>'\n'\<close> only). The empty string splits into one empty piece.\<close>

fun split :: "code_unit \<Rightarrow> jsstring \<Rightarrow> jsstring list" where
  "split sep [] = [[]]"
| "split sep (x # xs) =
     (if x = sep then [] # split sep xs
      else (case split sep xs of
              [] \<Rightarrow> [[x]]
            | piece # pieces \<Rightarrow> (x # piece) # pieces))"

text \<open>\<^verbatim>\<open>Array.prototype.slice(b, e)\<close> for \<open>0 \<le> b \<le> e\<close>.\<close>

definition slice :: "nat \<Rightarrow> nat \<Rightarrow> 'a list \<Rightarrow> 'a list" where
  "slice b e xs = take (e - b) (drop b xs)"

text \<open>\<^verbatim>\<open>Array.prototype.join(sep)\<close> on an array of strings.\<close>

fun join :: "jsstring \<Rightarrow> jsstring list \<Rightarrow> jsstring" where
  "join sep [] = []"
| "join sep [x] = x"
| "join sep (x # y # ys) = x @ sep @ join sep (y # ys)"

section \<open>Regular expressions\<close>

text \<open>
  The fragment of ECMAScript regular expressions that the module uses: single-unit
  matchers (a literal, \<^verbatim>\<open>.\<close>, \<^verbatim>\<open>\d\<close>, \<^verbatim>\<open>\s\<close>, a negated class), the anchor \<^verbatim>\<open>^\<close>,
  sequence, alternation, and the quantifiers \<^verbatim>\<open>*\<close>, \<^verbatim>\<open>+\<close>, \<^verbatim>\<open>?\<close> (greedy or lazy) on
  a single-unit matcher. Capture groups do not change the matched text and are left
  out.
\<close>

datatype cclass = Lit code_unit | Dot | Digit | Space | NoneOf "code_unit list"

datatype greed = Greedy | Lazy

datatype regex =
    Eps
  | Chr cclass
  | Bol
  | Seq regex regex
  | Alt regex regex
  | Star cclass greed
  | Plus cclass greed
  | Opt cclass greed

text \<open>
  \<^verbatim>\<open>Canonicalize\<close> under the \<^verbatim>\<open>i\<close> flag (no \<^verbatim>\<open>u\<close> flag). ECMAScript maps a code unit
  to its upper case, but never maps a unit of 128 or more to a unit below 128.
  Every character of the patterns below is ASCII, and for a comparison with an ASCII
  unit this leaves the ASCII letters: a lower-case ASCII letter is folded to its
  upper case and no other unit is ever equal to an ASCII unit after folding.
\<close>

definition canonicalize :: "code_unit \<Rightarrow> code_unit" where
  "canonicalize c = (if 0x61 \<le> c \<and> c \<le> 0x7A then c - 0x20 else c)"

fun cmatch :: "bool \<Rightarrow> cclass \<Rightarrow> code_unit \<Rightarrow> bool" where
  "cmatch ic (Lit c) x = (if ic then canonicalize x = canonicalize c else x = c)"
| "cmatch ic Dot x = (\<not> is_line_terminator x)"
| "cmatch ic Digit x = (0x30 \<le> x \<and> x \<le> 0x39)"
| "cmatch ic Space x = is_trimmable x"
| "cmatch ic (NoneOf cs) x =
     (if ic then canonicalize x \<notin> set (map canonicalize cs) else x \<notin> set cs)"

text \<open>
  The backtracking matcher, as the list of its successes in the order in which
  backtracking reaches them: every element is what is left of the input after one way
  of matching, the engine's first choice first. A greedy quantifier tries the longest
  repetition first, a lazy one the shortest.
\<close>

fun star_matches :: "(code_unit \<Rightarrow> bool) \<Rightarrow> greed \<Rightarrow> jsstring \<Rightarrow> jsstring list" where
  "star_matches p g [] = [[]]"
| "star_matches p g (x # xs) =
     (if p x then
        (case g of
           Greedy \<Rightarrow> star_matches p g xs @ [x # xs]
         | Lazy \<Rightarrow> (x # xs) # star_matches p g xs)
      else [x # xs])"

text \<open>\<open>matches ic r pos s\<close>: \<open>s\<close> is the input from index \<open>pos\<close> on; \<open>ic\<close> is the
  \<^verbatim>\<open>i\<close> flag. Without the \<^verbatim>\<open>m\<close> flag, \<^verbatim>\<open>^\<close> holds at index 0 only.\<close>

fun matches :: "bool \<Rightarrow> regex \<Rightarrow> nat \<Rightarrow> jsstring \<Rightarrow> jsstring list" where
  "matches ic Eps pos s = [s]"
| "matches ic (Chr c) pos [] = []"
| "matches ic (Chr c) pos (x # xs) = (if cmatch ic c x then [xs] else [])"
| "matches ic Bol pos s = (if pos = 0 then [s] else [])"
| "matches ic (Seq r1 r2) pos s =
     concat (map (\<lambda>rest. matches ic r2 (pos + (length s - length rest)) rest)
                 (matches ic r1 pos s))"
| "matches ic (Alt r1 r2) pos s = matches ic r1 pos s @ matches ic r2 pos s"
| "matches ic (Star c g) pos s = star_matches (cmatch ic c) g s"
| "matches ic (Plus c g) pos [] = []"
| "matches ic (Plus c g) pos (x # xs) =
     (if cmatch ic c x then star_matches (cmatch ic c) g xs else [])"
| "matches ic (Opt c g) pos [] = [[]]"
| "matches ic (Opt c g) pos (x # xs) =
     (if cmatch ic c x then
        (case g of Greedy \<Rightarrow> [xs, x # xs] | Lazy \<Rightarrow> [x # xs, xs])
      else [x # xs])"

text \<open>\<^verbatim>\<open>RegExp.prototype.exec\<close> without the \<^verbatim>\<open>g\<close> or \<^verbatim>\<open>y\<close> flag: the start index
  moves right from \<open>pos\<close> until the matcher succeeds; the result is the index and the
  matched text (\<^verbatim>\<open>match[0]\<close>), or \<open>None\<close> for \<^verbatim>\<open>null\<close>.\<close>

fun search :: "bool \<Rightarrow> regex \<Rightarrow> nat \<Rightarrow> jsstring \<Rightarrow> (nat \<times> jsstring) option" where
  "search ic r pos [] =
     (case matches ic r pos [] of [] \<Rightarrow> None | rest # _ \<Rightarrow> Some (pos, []))"
| "search ic r pos (x # xs) =
     (case matches ic r pos (x # xs) of
        [] \<Rightarrow> search ic r (Suc pos) xs
      | rest # _ \<Rightarrow> Some (pos, take (length (x # xs) - length rest) (x # xs)))"

text \<open>\<^verbatim>\<open>String.prototype.match(re)\<close> for a regular expression without the \<^verbatim>\<open>g\<close> flag;
  only \<^verbatim>\<open>match[0]\<close> is kept.\<close>

definition js_match :: "bool \<Rightarrow> regex \<Rightarrow> jsstring \<Rightarrow> jsstring option" where
  "js_match ic r s = map_option snd (search ic r 0 s)"

text \<open>A literal string as a regular expression, one unit after the other.\<close>

fun seqs :: "regex list \<Rightarrow> regex" where
  "seqs [] = Eps"
| "seqs [r] = r"
| "seqs (r # rs) = Seq r (seqs rs)"

definition lit :: "string \<Rightarrow> regex" where
  "lit s = seqs (map (\<lambda>c. Chr (Lit (cu c))) s)"

section \<open>Response extractors\<close>

text \<open>
  The four line extractors share one loop:
  \<^verbatim>\<open>for (const line of lines) { if (cond(line)) { out.push(line.trim()); } }\<close>
  \<open>push_matching cond lines out\<close> is the array \<open>out\<close> after the loop.
\<close>

fun push_matching :: "(jsstring \<Rightarrow> bool) \<Rightarrow> jsstring list \<Rightarrow> jsstring list \<Rightarrow> jsstring list" where
  "push_matching cond [] out = out"
| "push_matching cond (line # lines) out =
     push_matching cond lines (if cond line then out @ [trim line] else out)"

definition extractSuggestions :: "jsstring \<Rightarrow> jsstring list" where
  "extractSuggestions content =
     slice 0 5
       (push_matching
          (\<lambda>line. str_includes line (js ''suggestion'') \<or> str_includes line (js ''improve'') \<or>
                   str_includes line (js ''consider''))
          (split 0x0A content) [])"

definition extractApproach :: "jsstring \<Rightarrow> jsstring list" where
  "extractApproach content =
     slice 0 3
       (push_matching
          (\<lambda>line. str_includes line (js ''approach'') \<or> str_includes line (js ''strategy'') \<or>
                   str_includes line (js ''method''))
          (split 0x0A content) [])"

definition extractFixes :: "jsstring \<Rightarrow> jsstring list" where
  "extractFixes content =
     slice 0 5
       (push_matching
          (\<lambda>line. str_includes line (js ''fix'') \<or> str_includes line (js ''change'') \<or>
                   str_includes line (js ''replace''))
          (split 0x0A content) [])"

text \<open>\<^verbatim>\<open>/^\d+\./\<close>\<close>

definition numbered_re :: regex where
  "numbered_re = seqs [Bol, Plus Digit Greedy, Chr (Lit (cu CHR ''.''))]"

definition extractRoadmapPhases :: "jsstring \<Rightarrow> jsstring list" where
  "extractRoadmapPhases content =
     slice 0 10
       (push_matching
          (\<lambda>line. js_match False numbered_re line \<noteq> None \<or> str_includes line (js ''Phase'') \<or>
                   str_includes line (js ''Week''))
          (split 0x0A content) [])"

text \<open>\<^verbatim>\<open>/time.*?O\([^)]+\)/i\<close> and \<^verbatim>\<open>/space.*?O\([^)]+\)/i\<close>\<close>

definition complexity_re :: "string \<Rightarrow> regex" where
  "complexity_re word =
     seqs [lit word, Star Dot Lazy, lit ''O('',
           Plus (NoneOf [cu CHR '')'']) Greedy, Chr (Lit (cu CHR '')''))]"

record complexity =
  time :: "jsstring option"
  space :: "jsstring option"

definition extractComplexity :: "jsstring \<Rightarrow> complexity" where
  "extractComplexity content =
     (if str_includes content (js ''O('') then
        \<lparr>time = js_match True (complexity_re ''time'') content,
         space = js_match True (complexity_re ''space'') content\<rparr>
      else \<lparr>time = None, space = None\<rparr>)"

text \<open>\<^verbatim>\<open>/(\d+)\s*(week|month|day)s?/i\<close>\<close>

definition duration_re :: regex where
  "duration_re =
     seqs [Plus Digit Greedy, Star Space Greedy,
           Alt (lit ''week'') (Alt (lit ''month'') (lit ''day'')),
           Opt (Lit (cu CHR ''s'')) Greedy]"

definition extractDuration :: "jsstring \<Rightarrow> jsstring" where
  "extractDuration content =
     (case js_match True duration_re content of
        Some durationMatch \<Rightarrow> durationMatch
      | None \<Rightarrow> js ''Variable'')"

section \<open>Prompt builders\<close>

text \<open>
  \<^verbatim>\<open>String.prototype.replace(re, repl)\<close> for a regular expression with the \<^verbatim>\<open>g\<close> flag
  and a replacement text without \<^verbatim>\<open>$\<close> patterns: every match, found from the end of
  the one before, is replaced; after an empty match the search moves on by one unit.
  \<open>s\<close> is the input from index \<open>pos\<close> on.
\<close>

function replace_all :: "bool \<Rightarrow> regex \<Rightarrow> jsstring \<Rightarrow> nat \<Rightarrow> jsstring \<Rightarrow> jsstring" where
  "replace_all ic r repl pos s =
     (case matches ic r pos s of
        [] \<Rightarrow>
          (case s of
             [] \<Rightarrow> []
           | x # xs \<Rightarrow> x # replace_all ic r repl (Suc pos) xs)
      | rest # _ \<Rightarrow>
          repl @
          (if length rest < length s then
             replace_all ic r repl (pos + (length s - length rest)) rest
           else
             (case s of
                [] \<Rightarrow> []
              | x # xs \<Rightarrow> x # replace_all ic r repl (Suc pos) xs)))"
  by pat_completeness auto
termination
  by (relation "measure (\<lambda>(ic, r, repl, pos, s). length s)") auto

declare replace_all.simps [simp del]

text \<open>\<^verbatim>\<open>/<[^>]*>/g\<close>, and \<^verbatim>\<open>description.replace(/<[^>]*>/g, '')\<close>\<close>

definition tag_re :: regex where
  "tag_re = seqs [Chr (Lit (cu CHR ''<'')), Star (NoneOf [cu CHR ''>'']) Greedy,
                  Chr (Lit (cu CHR ''>''))]"

definition strip_tags :: "jsstring \<Rightarrow> jsstring" where
  "strip_tags description = replace_all False tag_re [] 0 description"

text \<open>The documents of the \<^verbatim>\<open>Problem\<close> and \<^verbatim>\<open>User\<close> collections, as far as the module
  reads them (\<open>stats_totalSolved\<close> is \<^verbatim>\<open>stats.totalSolved\<close>). The two statistics are
  counts, kept as integers below \<open>2 ^ 53\<close>: a number holds each of them exactly, and a
  template literal interpolates it in decimal.\<close>

record problem_doc =
  title :: jsstring
  description :: jsstring
  difficulty :: jsstring

record user_doc =
  stats_totalSolved :: "53 word"
  stats_rating :: "53 word"

fun number_text :: "nat \<Rightarrow> jsstring" where
  "number_text n =
     (if n < 10 then [0x30 + of_nat n]
      else number_text (n div 10) @ [0x30 + of_nat (n mod 10)])"

text \<open>A body field that may be missing: a template literal interpolates
  \<^verbatim>\<open>undefined\<close> as the text "undefined", and a condition takes a missing or empty text
  as false.\<close>

definition text_of :: "jsstring option \<Rightarrow> jsstring" where
  "text_of v = (case v of None \<Rightarrow> js ''undefined'' | Some s \<Rightarrow> s)"

definition truthy :: "jsstring option \<Rightarrow> bool" where
  "truthy v = (case v of None \<Rightarrow> False | Some s \<Rightarrow> s \<noteq> [])"

text \<open>The four prompts. Each is one template literal; it is written here line by line,
  as in the source.\<close>

definition code_review_prompt :: "jsstring \<Rightarrow> problem_doc \<Rightarrow> jsstring \<Rightarrow> jsstring" where
  \<open>code_review_prompt language problem code =
     js ''\<newline>'' @
     js ''As a coding mentor, review this '' @ language @ js '' code for the problem "'' @
       title problem @ js ''":\<newline>'' @
     js ''\<newline>'' @
     js ''Problem Description: '' @ strip_tags (description problem) @ js ''\<newline>'' @
     js ''\<newline>'' @
     js ''Code:\<newline>'' @
     js ''```'' @ language @ js ''\<newline>'' @
     code @ js ''\<newline>'' @
     js ''```\<newline>'' @
     js ''\<newline>'' @
     js ''Please provide:\<newline>'' @
     js ''1. Code quality assessment (readability, structure, best practices)\<newline>'' @
     js ''2. Time and space complexity analysis\<newline>'' @
     js ''3. Potential bugs or edge cases missed\<newline>'' @
     js ''4. Suggestions for improvement\<newline>'' @
     js ''5. Alternative approaches if applicable\<newline>'' @
     js ''\<newline>'' @
     js ''Keep the response concise but comprehensive.\<newline>'' @
     js ''    ''\<close>

definition roadmap_prompt ::
    "jsstring \<Rightarrow> jsstring list \<Rightarrow> jsstring \<Rightarrow> jsstring list \<Rightarrow> user_doc \<Rightarrow> jsstring" where
  "roadmap_prompt currentLevel goals timeCommitment preferredTopics user =
     js ''\<newline>'' @
     js ''Create a personalized coding learning roadmap for a '' @ currentLevel @
       js '' level programmer.\<newline>'' @
     js ''\<newline>'' @
     js ''User Profile:\<newline>'' @
     js ''- Current Level: '' @ currentLevel @ js ''\<newline>'' @
     js ''- Goals: '' @ join (js '', '') goals @ js ''\<newline>'' @
     js ''- Time Commitment: '' @ timeCommitment @ js '' hours per week\<newline>'' @
     js ''- Preferred Topics: '' @ join (js '', '') preferredTopics @ js ''\<newline>'' @
     js ''- Problems Solved: '' @ number_text (unat (stats_totalSolved user)) @ js ''\<newline>'' @
     js ''- Current Rating: '' @ number_text (unat (stats_rating user)) @ js ''\<newline>'' @
     js ''\<newline>'' @
     js ''Please provide:\<newline>'' @
     js ''1. A structured learning path with milestones\<newline>'' @
     js ''2. Recommended topics and concepts to study\<newline>'' @
     js ''3. Practice problem categories and difficulty progression\<newline>'' @
     js ''4. Estimated timeline for each phase\<newline>'' @
     js ''5. Resources and tips for effective learning\<newline>'' @
     js ''\<newline>'' @
     js ''Format as a detailed roadmap with clear phases and actionable steps.\<newline>'' @
     js ''    ''"

definition hint_prompt :: "problem_doc \<Rightarrow> jsstring option \<Rightarrow> jsstring option \<Rightarrow> jsstring" where
  "hint_prompt problem currentCode language =
     js ''\<newline>'' @
     js ''Provide a helpful hint for solving this coding problem. Don't give away the complete solution, but guide the user in the right direction.\<newline>'' @
     js ''\<newline>'' @
     js ''Problem: '' @ title problem @ js ''\<newline>'' @
     js ''Description: '' @ strip_tags (description problem) @ js ''\<newline>'' @
     js ''Difficulty: '' @ difficulty problem @ js ''\<newline>'' @
     js ''\<newline>'' @
     (if truthy currentCode then
        js ''Current attempt:\<newline>```'' @ text_of language @ js ''\<newline>'' @
        text_of currentCode @ js ''\<newline>```''
      else []) @ js ''\<newline>'' @
     js ''\<newline>'' @
     js ''Provide:\<newline>'' @
     js ''1. A conceptual hint about the approach\<newline>'' @
     js ''2. Key insights or patterns to recognize\<newline>'' @
     js ''3. Suggested next steps\<newline>'' @
     js ''4. Common pitfalls to avoid\<newline>'' @
     js ''\<newline>'' @
     js ''Keep it encouraging and educational without spoiling the solution.\<newline>'' @
     js ''    ''"

definition debug_prompt ::
    "jsstring \<Rightarrow> problem_doc option \<Rightarrow> jsstring \<Rightarrow> jsstring \<Rightarrow> jsstring" where
  "debug_prompt language problem code error =
     js ''\<newline>'' @
     js ''Help debug this '' @ language @ js '' code that's encountering an error.\<newline>'' @
     js ''\<newline>'' @
     (case problem of Some p \<Rightarrow> js ''Problem: '' @ title p | None \<Rightarrow> []) @ js ''\<newline>'' @
     (case problem of
        Some p \<Rightarrow> js ''Description: '' @ strip_tags (description p)
      | None \<Rightarrow> []) @ js ''\<newline>'' @
     js ''\<newline>'' @
     js ''Code:\<newline>'' @
     js ''```'' @ language @ js ''\<newline>'' @
     code @ js ''\<newline>'' @
     js ''```\<newline>'' @
     js ''\<newline>'' @
     js ''Error: '' @ error @ js ''\<newline>'' @
     js ''\<newline>'' @
     js ''Please provide:\<newline>'' @
     js ''1. Explanation of what's causing the error\<newline>'' @
     js ''2. Step-by-step debugging approach\<newline>'' @
     js ''3. Specific fixes needed\<newline>'' @
     js ''4. Prevention tips for similar issues\<newline>'' @
     js ''\<newline>'' @
     js ''Be clear and educational in your explanation.\<newline>'' @
     js ''    ''"

section \<open>Stores, completion service and interactions\<close>

type_synonym object_id = nat

datatype interaction_type = code_review | roadmap | hint | debug_help

fun type_name :: "interaction_type \<Rightarrow> jsstring" where
  "type_name code_review = js ''code_review''"
| "type_name roadmap = js ''roadmap''"
| "type_name hint = js ''hint''"
| "type_name debug_help = js ''debug_help''"

text \<open>The \<^verbatim>\<open>context\<close> object of an interaction; a handler fills the fields of its type
  and leaves the others out.\<close>

record interaction_context =
  context_problem :: "object_id option"
  context_code :: "jsstring option"
  context_language :: "jsstring option"
  context_error :: "jsstring option"
  context_userLevel :: "jsstring option"
  context_goals :: "jsstring list option"

record feedback_doc =
  feedback_helpful :: bool
  feedback_rating :: int
  feedback_comment :: jsstring

text \<open>A document of the \<^verbatim>\<open>AIInteraction\<close> collection: \<open>ident\<close> is its \<^verbatim>\<open>_id\<close>, \<open>ctx\<close> its
  \<^verbatim>\<open>context\<close>.\<close>

record interaction =
  ident :: object_id
  user :: object_id
  type :: interaction_type
  ctx :: interaction_context
  query :: jsstring
  response :: jsstring
  tokens_used :: nat
  response_time :: nat
  feedback :: "feedback_doc option"
  createdAt :: nat

text \<open>What a handler does to the outside, in the order in which it does it. A lookup
  by an identifier of the request is recorded with the text that the request sent.\<close>

datatype effect =
    FindProblem "jsstring option"
  | FindUser object_id
  | FindInteraction jsstring
  | QueryInteractions
  | CountInteractions
  | CompletionCall jsstring
  | SaveInteraction object_id

text \<open>The stores the module reads and writes (lookup by key; the interaction
  collection in insertion order), and the trace of the effects performed so far.\<close>

record world =
  problems :: "object_id \<rightharpoonup> problem_doc"
  users :: "object_id \<rightharpoonup> user_doc"
  interactions :: "interaction list"
  effects :: "effect list"

text \<open>The answer of the completion service to one request: the texts of
  \<^verbatim>\<open>data.choices[i].message.content\<close>, \<^verbatim>\<open>data.usage\<close> when the service sends it, and the
  time between the two readings of the clock around the request.\<close>

record usage_info =
  total_tokens :: "nat option"

datatype api_reply =
  Reply (choices: "jsstring list") (data_usage: "usage_info option") (elapsed: nat)

text \<open>The process environment and the outside: the credential, the completion
  service (\<open>None\<close> when the request fails), the time at which a document is created,
  and the store's reading of a text as a document identifier (\<open>None\<close> when the text
  is not an identifier for it).\<close>

record env =
  OPENAI_API_KEY :: "jsstring option"
  chat_completions :: "jsstring \<Rightarrow> api_reply option"
  now :: nat
  cast_id :: "jsstring \<Rightarrow> object_id option"

text \<open>What is thrown: an error with a message, and the store's error for a text that
  it cannot read as an identifier.\<close>

datatype js_error = Error jsstring | CastError

text \<open>The object \<^verbatim>\<open>{content, usage, response_time}\<close> that \<^verbatim>\<open>callOpenAI\<close> returns.\<close>

datatype completion =
  Completion (content_of: jsstring) (usage_of: "usage_info option") (response_time_of: nat)

text \<open>\<^verbatim>\<open>callOpenAI\<close>: one request to the service. A failed request, and a reply
  without a first choice, are caught and thrown again as one error.\<close>

definition callOpenAI :: "env \<Rightarrow> jsstring \<Rightarrow> world \<Rightarrow> (js_error + completion) \<times> world" where
  "callOpenAI e prompt w =
     (let w' = w\<lparr>effects := effects w @ [CompletionCall prompt]\<rparr> in
      case chat_completions e prompt of
        None \<Rightarrow> (Inl (Error (js ''Failed to get AI response'')), w')
      | Some reply \<Rightarrow>
          (case choices reply of
             [] \<Rightarrow> (Inl (Error (js ''Failed to get AI response'')), w')
           | first # _ \<Rightarrow> (Inr (Completion first (data_usage reply) (elapsed reply)), w')))"

text \<open>\<^verbatim>\<open>response.usage?.total_tokens || 0\<close>\<close>

definition tokens_of :: "usage_info option \<Rightarrow> nat" where
  "tokens_of u =
     (case u of
        None \<Rightarrow> 0
      | Some info \<Rightarrow> (case total_tokens info of None \<Rightarrow> 0 | Some n \<Rightarrow> n))"

text \<open>
  \<^verbatim>\<open>Model.findById\<close> on the two keyed stores and on the interaction collection.
  \<open>problemId\<close> comes from the body of the request and \<open>interactionId\<close> from its path,
  as texts that nothing has checked. The lookup first reads the text as an identifier
  (\<open>cast_id\<close>, the store's own reading): it throws when the text is not one, and
  otherwise returns the document with this identifier or \<^verbatim>\<open>null\<close>. A request without
  \<^verbatim>\<open>problemId\<close> looks up \<^verbatim>\<open>undefined\<close> and finds nothing. \<open>userId\<close> is the identifier
  that the authentication middleware has put into the request.
\<close>

definition problem_id :: "env \<Rightarrow> jsstring option \<Rightarrow> object_id option" where
  "problem_id e problemId = (case problemId of None \<Rightarrow> None | Some t \<Rightarrow> cast_id e t)"

definition problem_by_id ::
    "env \<Rightarrow> world \<Rightarrow> jsstring option \<Rightarrow> js_error + problem_doc option" where
  "problem_by_id e w problemId =
     (case problemId of
        None \<Rightarrow> Inr None
      | Some t \<Rightarrow>
          (case cast_id e t of
             None \<Rightarrow> Inl CastError
           | Some i \<Rightarrow> Inr (problems w i)))"

definition find_problem ::
    "env \<Rightarrow> jsstring option \<Rightarrow> world \<Rightarrow> (js_error + problem_doc option) \<times> world" where
  "find_problem e problemId w =
     (problem_by_id e w problemId, w\<lparr>effects := effects w @ [FindProblem problemId]\<rparr>)"

definition find_user :: "object_id \<Rightarrow> world \<Rightarrow> user_doc option \<times> world" where
  "find_user userId w = (users w userId, w\<lparr>effects := effects w @ [FindUser userId]\<rparr>)"

definition interaction_by_id ::
    "env \<Rightarrow> world \<Rightarrow> jsstring \<Rightarrow> js_error + interaction option" where
  "interaction_by_id e w interactionId =
     (case cast_id e interactionId of
        None \<Rightarrow> Inl CastError
      | Some i \<Rightarrow> Inr (find (\<lambda>d. ident d = i) (interactions w)))"

definition find_interaction ::
    "env \<Rightarrow> jsstring \<Rightarrow> world \<Rightarrow> (js_error + interaction option) \<times> world" where
  "find_interaction e interactionId w =
     (interaction_by_id e w interactionId,
      w\<lparr>effects := effects w @ [FindInteraction interactionId]\<rparr>)"

text \<open>A new document gets an identifier that no stored document has.\<close>

definition fresh_id :: "interaction list \<Rightarrow> object_id" where
  "fresh_id docs = Suc (fold max (map ident docs) 0)"

definition new_AIInteraction ::
    "env \<Rightarrow> world \<Rightarrow> object_id \<Rightarrow> interaction_type \<Rightarrow> interaction_context \<Rightarrow> jsstring \<Rightarrow>
     completion \<Rightarrow> interaction" where
  "new_AIInteraction e w userId t c q r =
     \<lparr>ident = fresh_id (interactions w), user = userId, type = t, ctx = c, query = q,
      response = content_of r, tokens_used = tokens_of (usage_of r),
      response_time = response_time_of r, feedback = None, createdAt = now e\<rparr>"

text \<open>\<^verbatim>\<open>document.save()\<close>: a document whose identifier is stored replaces the stored
  one, any other document is inserted.\<close>

fun replace_doc :: "interaction \<Rightarrow> interaction list \<Rightarrow> interaction list" where
  "replace_doc i [] = []"
| "replace_doc i (d # ds) = (if ident d = ident i then i # ds else d # replace_doc i ds)"

definition save :: "interaction \<Rightarrow> world \<Rightarrow> world" where
  "save i w =
     w\<lparr>interactions :=
         (if find (\<lambda>d. ident d = ident i) (interactions w) = None
          then interactions w @ [i]
          else replace_doc i (interactions w)),
       effects := effects w @ [SaveInteraction (ident i)]\<rparr>"

section \<open>Request handlers\<close>

datatype body =
    Message jsstring
  | Review jsstring "jsstring list" complexity
  | Roadmap jsstring "jsstring list" jsstring
  | Hint jsstring "jsstring list"
  | DebugHelp jsstring "jsstring list"
  | History "(interaction \<times> (jsstring \<times> jsstring) option) list" "nat option" nat nat

record http_response =
  status :: nat
  payload :: body

definition respond :: "nat \<Rightarrow> body \<Rightarrow> http_response" where
  "respond st b = \<lparr>status = st, payload = b\<rparr>"

definition empty_context :: interaction_context where
  "empty_context =
     \<lparr>context_problem = None, context_code = None, context_language = None,
      context_error = None, context_userLevel = None, context_goals = None\<rparr>"

text \<open>
  Every handler runs inside \<^verbatim>\<open>try { ... } catch\<close>: an error thrown on the way (by a
  lookup, by the completion call, by reading a field of \<^verbatim>\<open>null\<close>) ends the request
  with status 500 and the handler's own message. \<open>userId\<close> is
  \<^verbatim>\<open>req.user.userId\<close>, set by the authentication middleware; the other arguments are
  the fields taken from \<^verbatim>\<open>req.body\<close>. \<open>completion\<close> is what the source calls
  \<^verbatim>\<open>response\<close>, \<open>profile\<close> what it calls \<^verbatim>\<open>user\<close>.
\<close>

definition post_code_review ::
    "env \<Rightarrow> object_id \<Rightarrow> jsstring \<Rightarrow> jsstring \<Rightarrow> jsstring option \<Rightarrow> world \<Rightarrow>
     http_response \<times> world" where
  "post_code_review e userId code language problemId w =
     (if \<not> truthy (OPENAI_API_KEY e) then
        (respond 500 (Message (js ''AI service not configured'')), w)
      else
        (case find_problem e problemId w of
           (Inl err, w1) \<Rightarrow> (respond 500 (Message (js ''Failed to analyze code'')), w1)
         | (Inr None, w1) \<Rightarrow> (respond 404 (Message (js ''Problem not found'')), w1)
         | (Inr (Some problem), w1) \<Rightarrow>
             (case callOpenAI e (code_review_prompt language problem code) w1 of
                (Inl err, w2) \<Rightarrow> (respond 500 (Message (js ''Failed to analyze code'')), w2)
              | (Inr completion, w2) \<Rightarrow>
                  (let interaction =
                         new_AIInteraction e w2 userId code_review
                           (empty_context\<lparr>context_problem := problem_id e problemId,
                              context_code := Some code,
                              context_language := Some language\<rparr>)
                           (js ''Code review request'') completion;
                       w3 = save interaction w2
                   in (respond 200
                         (Review (content_of completion) (extractSuggestions (content_of completion))
                            (extractComplexity (content_of completion))),
                       w3)))))"

definition post_roadmap ::
    "env \<Rightarrow> object_id \<Rightarrow> jsstring list \<Rightarrow> jsstring \<Rightarrow> jsstring \<Rightarrow> jsstring list \<Rightarrow> world \<Rightarrow>
     http_response \<times> world" where
  "post_roadmap e userId goals currentLevel timeCommitment preferredTopics w =
     (if \<not> truthy (OPENAI_API_KEY e) then
        (respond 500 (Message (js ''AI service not configured'')), w)
      else
        (case find_user userId w of
           (None, w1) \<Rightarrow>
             \<comment> \<open>\<^verbatim>\<open>user.stats\<close> of \<^verbatim>\<open>null\<close>: a TypeError, caught\<close>
             (respond 500 (Message (js ''Failed to generate roadmap'')), w1)
         | (Some profile, w1) \<Rightarrow>
             (case callOpenAI e
                     (roadmap_prompt currentLevel goals timeCommitment preferredTopics profile) w1 of
                (Inl err, w2) \<Rightarrow>
                  (respond 500 (Message (js ''Failed to generate roadmap'')), w2)
              | (Inr completion, w2) \<Rightarrow>
                  (let interaction =
                         new_AIInteraction e w2 userId roadmap
                           (empty_context\<lparr>context_userLevel := Some currentLevel,
                              context_goals := Some goals\<rparr>)
                           (js ''Personalized roadmap request'') completion;
                       w3 = save interaction w2
                   in (respond 200
                         (Roadmap (content_of completion) (extractRoadmapPhases (content_of completion))
                            (extractDuration (content_of completion))),
                       w3)))))"

definition post_hint ::
    "env \<Rightarrow> object_id \<Rightarrow> jsstring option \<Rightarrow> jsstring option \<Rightarrow> jsstring option \<Rightarrow> world \<Rightarrow>
     http_response \<times> world" where
  "post_hint e userId problemId currentCode language w =
     (if \<not> truthy (OPENAI_API_KEY e) then
        (respond 500 (Message (js ''AI service not configured'')), w)
      else
        (case find_problem e problemId w of
           (Inl err, w1) \<Rightarrow> (respond 500 (Message (js ''Failed to generate hint'')), w1)
         | (Inr None, w1) \<Rightarrow> (respond 404 (Message (js ''Problem not found'')), w1)
         | (Inr (Some problem), w1) \<Rightarrow>
             (case callOpenAI e (hint_prompt problem currentCode language) w1 of
                (Inl err, w2) \<Rightarrow> (respond 500 (Message (js ''Failed to generate hint'')), w2)
              | (Inr completion, w2) \<Rightarrow>
                  (let interaction =
                         new_AIInteraction e w2 userId hint
                           (empty_context\<lparr>context_problem := problem_id e problemId,
                              context_code := currentCode,
                              context_language := language\<rparr>)
                           (js ''Hint request'') completion;
                       w3 = save interaction w2
                   in (respond 200
                         (Hint (content_of completion) (extractApproach (content_of completion))),
                       w3)))))"

definition post_debug ::
    "env \<Rightarrow> object_id \<Rightarrow> jsstring \<Rightarrow> jsstring \<Rightarrow> jsstring \<Rightarrow> jsstring option \<Rightarrow> world \<Rightarrow>
     http_response \<times> world" where
  "post_debug e userId code language error problemId w =
     (if \<not> truthy (OPENAI_API_KEY e) then
        (respond 500 (Message (js ''AI service not configured'')), w)
      else
        (case find_problem e problemId w of
           (Inl err, w1) \<Rightarrow>
             (respond 500 (Message (js ''Failed to provide debug help'')), w1)
         | (Inr problem, w1) \<Rightarrow>
             (case callOpenAI e (debug_prompt language problem code error) w1 of
                (Inl err, w2) \<Rightarrow>
                  (respond 500 (Message (js ''Failed to provide debug help'')), w2)
              | (Inr completion, w2) \<Rightarrow>
                  (let interaction =
                         new_AIInteraction e w2 userId debug_help
                           (empty_context\<lparr>context_problem := problem_id e problemId,
                              context_code := Some code,
                              context_language := Some language,
                              context_error := Some error\<rparr>)
                           (js ''Debug help request'') completion;
                       w3 = save interaction w2
                   in (respond 200
                         (DebugHelp (content_of completion) (extractFixes (content_of completion))),
                       w3)))))"

text \<open>
  \<^verbatim>\<open>GET /history\<close>. \<open>page\<close> and \<open>limit\<close> are the numbers that the query parameters
  stand for (absent: 1 and 20), \<open>type_filter\<close> the \<^verbatim>\<open>type\<close> parameter. The store sorts
  the matching documents by \<^verbatim>\<open>createdAt\<close>, newest first (documents of one time stay in
  the order of the collection), skips \<^verbatim>\<open>(page - 1) * limit\<close> of them and returns at most
  \<^verbatim>\<open>limit\<close>; it takes a limit of 0 as no limit and refuses a negative skip, which
  the handler catches. \<^verbatim>\<open>populate\<close> puts title and difficulty of the referenced
  problem beside each document, or nothing when the problem is gone. A second query
  counts the matching documents. \<^verbatim>\<open>Math.ceil(total / 0)\<close> is not a finite number:
  \<open>None\<close>.
\<close>

definition populate :: "world \<Rightarrow> interaction \<Rightarrow> interaction \<times> (jsstring \<times> jsstring) option" where
  "populate w d =
     (d, case context_problem (ctx d) of
           None \<Rightarrow> None
         | Some i \<Rightarrow> map_option (\<lambda>p. (title p, difficulty p)) (problems w i))"

definition history_query :: "object_id \<Rightarrow> jsstring option \<Rightarrow> interaction \<Rightarrow> bool" where
  "history_query userId type_filter d \<longleftrightarrow>
     user d = userId \<and>
     (case type_filter of
        None \<Rightarrow> True
      | Some t \<Rightarrow> if t = [] then True else type_name (type d) = t)"

definition newest_first :: "interaction list \<Rightarrow> interaction list" where
  "newest_first docs = sort_key (\<lambda>d. - int (createdAt d)) docs"

definition get_history ::
    "object_id \<Rightarrow> nat option \<Rightarrow> nat option \<Rightarrow> jsstring option \<Rightarrow> world \<Rightarrow>
     http_response \<times> world" where
  "get_history userId page_param limit_param type_filter w =
     (let page = (case page_param of None \<Rightarrow> 1 | Some p \<Rightarrow> p);
          limit = (case limit_param of None \<Rightarrow> 20 | Some l \<Rightarrow> l);
          found = newest_first (filter (history_query userId type_filter) (interactions w));
          w1 = w\<lparr>effects := effects w @ [QueryInteractions]\<rparr>
      in if (int page - 1) * int limit < 0 then
           (respond 500 (Message (js ''Server error'')), w1)
         else
           (let skipped = drop ((page - 1) * limit) found;
                docs = (if limit = 0 then skipped else take limit skipped);
                total = length (filter (history_query userId type_filter) (interactions w));
                w2 = w1\<lparr>effects := effects w1 @ [CountInteractions]\<rparr>
            in (respond 200
                  (History (map (populate w) docs)
                     (if limit = 0 then None else Some (nat \<lceil>real total / real limit\<rceil>))
                     page total),
                w2)))"

text \<open>\<^verbatim>\<open>POST /feedback/:interactionId\<close>. The lookup is the only call before the write
  that can throw; the write stores the document that the lookup returned, with its
  feedback replaced.\<close>

definition post_feedback ::
    "env \<Rightarrow> object_id \<Rightarrow> jsstring \<Rightarrow> bool \<Rightarrow> int \<Rightarrow> jsstring \<Rightarrow> world \<Rightarrow>
     http_response \<times> world" where
  "post_feedback e userId interactionId helpful rating comment w =
     (case find_interaction e interactionId w of
        (Inl err, w1) \<Rightarrow> (respond 500 (Message (js ''Server error'')), w1)
      | (Inr None, w1) \<Rightarrow> (respond 404 (Message (js ''Interaction not found'')), w1)
      | (Inr (Some interaction), w1) \<Rightarrow>
          if user interaction \<noteq> userId then
            (respond 403 (Message (js ''Not authorized'')), w1)
          else
            (respond 200 (Message (js ''Feedback saved successfully'')),
             save (interaction\<lparr>feedback :=
                      Some \<lparr>feedback_helpful = helpful, feedback_rating = rating,
                            feedback_comment = comment\<rparr>\<rparr>) w1))"

text \<open>The router: one handler for each route, with the fields of the request.\<close>

datatype request =
    CodeReviewRequest jsstring jsstring "jsstring option"
  | RoadmapRequest "jsstring list" jsstring jsstring "jsstring list"
  | HintRequest "jsstring option" "jsstring option" "jsstring option"
  | DebugRequest jsstring jsstring jsstring "jsstring option"
  | HistoryRequest "nat option" "nat option" "jsstring option"
  | FeedbackRequest jsstring bool int jsstring

fun router :: "env \<Rightarrow> object_id \<Rightarrow> request \<Rightarrow> world \<Rightarrow> http_response \<times> world" where
  "router e userId (CodeReviewRequest code language problemId) w =
     post_code_review e userId code language problemId w"
| "router e userId (RoadmapRequest goals currentLevel timeCommitment preferredTopics) w =
     post_roadmap e userId goals currentLevel timeCommitment preferredTopics w"
| "router e userId (HintRequest problemId currentCode language) w =
     post_hint e userId problemId currentCode language w"
| "router e userId (DebugRequest code language error problemId) w =
     post_debug e userId code language error problemId w"
| "router e userId (HistoryRequest page limit type_filter) w =
     get_history userId page limit type_filter w"
| "router e userId (FeedbackRequest interactionId helpful rating comment) w =
     post_feedback e userId interactionId helpful rating comment w"

section \<open>The specification's readings\<close>

text \<open>
  The definitions of this section are not translations of code: they write down what
  the specification says, to be compared with the functions above.
\<close>

text \<open>A line extractor as the specification words it: the lines that contain one of
  the words, matched without regard to case, trimmed, the first \<open>cap\<close> of them.\<close>

definition ci_includes :: "jsstring \<Rightarrow> jsstring \<Rightarrow> bool" where
  "ci_includes line word \<longleftrightarrow> sublist (map canonicalize word) (map canonicalize line)"

definition spec_line_extractor :: "string list \<Rightarrow> nat \<Rightarrow> jsstring \<Rightarrow> jsstring list" where
  "spec_line_extractor words cap content =
     take cap (map trim
       (filter (\<lambda>line. list_ex (\<lambda>word. ci_includes line (js word)) words)
          (split 0x0A content)))"

text \<open>The same with the words matched as they are written.\<close>

definition exact_line_extractor :: "string list \<Rightarrow> nat \<Rightarrow> jsstring \<Rightarrow> jsstring list" where
  "exact_line_extractor words cap content =
     take cap (map trim
       (filter (\<lambda>line. list_ex (\<lambda>word. sublist (js word) line) words)
          (split 0x0A content)))"

text \<open>A line of a roadmap phase: it starts with one or more decimal digits and a
  period, or it contains "Phase" or "Week" as written.\<close>

definition is_digit :: "code_unit \<Rightarrow> bool" where
  "is_digit c \<longleftrightarrow> 0x30 \<le> c \<and> c \<le> 0x39"

definition starts_numbered :: "jsstring \<Rightarrow> bool" where
  "starts_numbered line \<longleftrightarrow>
     takeWhile is_digit line \<noteq> [] \<and> prefix [0x2E] (dropWhile is_digit line)"

definition phase_line :: "jsstring \<Rightarrow> bool" where
  "phase_line line \<longleftrightarrow>
     starts_numbered line \<or> sublist (js ''Phase'') line \<or> sublist (js ''Week'') line"

text \<open>The phase lines collected as they stand, and collected trimmed.\<close>

definition spec_roadmap_phases :: "jsstring \<Rightarrow> jsstring list" where
  "spec_roadmap_phases content = take 10 (filter phase_line (split 0x0A content))"

definition trimmed_roadmap_phases :: "jsstring \<Rightarrow> jsstring list" where
  "trimmed_roadmap_phases content =
     take 10 (map trim (filter phase_line (split 0x0A content)))"

text \<open>
  Complexity phrases. Two texts are equal up to case when they agree unit by unit
  after folding. A "time ... O(...)" phrase is the word, up to case; any units but
  line terminators; "O(", up to case; one or more units other than ")"; and ")".
\<close>

definition ci_equal :: "jsstring \<Rightarrow> jsstring \<Rightarrow> bool" where
  "ci_equal a b \<longleftrightarrow> map canonicalize a = map canonicalize b"

definition complexity_phrase :: "string \<Rightarrow> jsstring \<Rightarrow> bool" where
  "complexity_phrase word m \<longleftrightarrow>
     (\<exists>w gap o_paren arg.
        m = w @ gap @ o_paren @ arg @ [0x29] \<and>
        ci_equal w (js word) \<and>
        list_all (\<lambda>x. \<not> is_line_terminator x) gap \<and>
        ci_equal o_paren (js ''O('') \<and>
        arg \<noteq> [] \<and> 0x29 \<notin> set arg)"

text \<open>\<open>first_phrase word content result\<close>: \<open>result\<close> is the first phrase in \<open>content\<close>,
  that is, the text has no phrase and there is no result, or the result is a phrase
  of the text, no phrase starts before it, and no phrase that starts where it starts
  is shorter.\<close>

definition first_phrase :: "string \<Rightarrow> jsstring \<Rightarrow> jsstring option \<Rightarrow> bool" where
  "first_phrase word content result \<longleftrightarrow>
     (case result of
        None \<Rightarrow> \<not> (\<exists>pre m post. content = pre @ m @ post \<and> complexity_phrase word m)
      | Some m \<Rightarrow>
          (\<exists>pre post.
             content = pre @ m @ post \<and> complexity_phrase word m \<and>
             (\<forall>pre' m' post'.
                content = pre' @ m' @ post' \<and> complexity_phrase word m' \<longrightarrow>
                length pre \<le> length pre' \<and>
                (length pre' = length pre \<longrightarrow> length m \<le> length m'))))"


text \<open>There is a tag in a text: a "<" with a ">" after it.\<close>

definition has_tag :: "jsstring \<Rightarrow> bool" where
  "has_tag s \<longleftrightarrow> 0x3E \<in> set (dropWhile (\<lambda>c. c \<noteq> 0x3C) s)"





text \<open>The four generation endpoints.\<close>

fun is_generation :: "request \<Rightarrow> bool" where
  "is_generation (HistoryRequest page limit type_filter) = False"
| "is_generation (FeedbackRequest interactionId helpful rating comment) = False"
| "is_generation r = True"

text \<open>The credential is present: the variable is set, and not to the empty text.\<close>

definition configured :: "env \<Rightarrow> bool" where
  "configured e \<longleftrightarrow> truthy (OPENAI_API_KEY e)"

text \<open>The effects of a request: what its handler has added to the trace.\<close>

definition effects_of :: "world \<Rightarrow> world \<Rightarrow> effect list" where
  "effects_of w w' = drop (length (effects w)) (effects w')"

fun is_completion_call :: "effect \<Rightarrow> bool" where
  "is_completion_call (CompletionCall prompt) = True"
| "is_completion_call x = False"

fun is_write :: "effect \<Rightarrow> bool" where
  "is_write (SaveInteraction i) = True"
| "is_write x = False"

text \<open>A successful generation request, seen from outside: one completion call with a
  reply that has a first choice, and one write, of a new document of the caller that
  holds this choice; its token count is that of the reply, 0 when the reply has no
  usage data or no total.\<close>

definition persisted_once :: "env \<Rightarrow> object_id \<Rightarrow> world \<Rightarrow> world \<Rightarrow> bool" where
  "persisted_once e userId w w' \<longleftrightarrow>
     (\<exists>i prompt reply first others.
        interactions w' = interactions w @ [i] \<and>
        filter is_write (effects_of w w') = [SaveInteraction (ident i)] \<and>
        filter is_completion_call (effects_of w w') = [CompletionCall prompt] \<and>
        chat_completions e prompt = Some reply \<and>
        choices reply = first # others \<and>
        user i = userId \<and> response i = first \<and> feedback i = None \<and>
        tokens_used i =
          (case data_usage reply of
             None \<Rightarrow> 0
           | Some info \<Rightarrow> (case total_tokens info of None \<Rightarrow> 0 | Some n \<Rightarrow> n)))"


text \<open>A page of the history: \<open>matching\<close> is the list of the documents of the user (of the
  type asked for), newest first, and \<open>docs\<close> the page cut out of it.\<close>

definition history_page ::
    "object_id \<Rightarrow> jsstring option \<Rightarrow> nat \<Rightarrow> nat \<Rightarrow> world \<Rightarrow> interaction list \<Rightarrow> interaction list \<Rightarrow> bool" where
  "history_page userId type_filter page limit w matching docs \<longleftrightarrow>
     mset matching = mset (filter (history_query userId type_filter) (interactions w)) \<and>
     sorted_wrt (\<lambda>a b. createdAt b \<le> createdAt a) matching \<and>
     docs = take limit (drop ((page - 1) * limit) matching)"

section \<open>Notions for the analysis of the matcher\<close>

text \<open>A text starts with a word, up to case.\<close>

definition ci_prefix :: "jsstring \<Rightarrow> jsstring \<Rightarrow> bool" where
  "ci_prefix w s \<longleftrightarrow> length w \<le> length s \<and> ci_equal (take (length w) s) w"

text \<open>The part \<^verbatim>\<open>O\([^)]+\)\<close> of the complexity patterns; the number of units it
  matches at the start of a text, if it matches; how far the part \<^verbatim>\<open>.*?\<close> can reach;
  the lengths it can have with a match after it; and the index of the first ")" from
  an index on.\<close>

definition tail_re :: regex where
  "tail_re = Seq (lit ''O('') (Seq (Plus (NoneOf [0x29]) Greedy) (Chr (Lit 0x29)))"

definition arg_end :: "jsstring \<Rightarrow> nat option" where
  "arg_end u =
     (if ci_prefix (js ''O('') u \<and> takeWhile (\<lambda>x. x \<noteq> 0x29) (drop 2 u) \<noteq> [] \<and>
         0x29 \<in> set (drop 2 u)
      then Some (3 + length (takeWhile (\<lambda>x. x \<noteq> 0x29) (drop 2 u)))
      else None)"

definition gap_limit :: "jsstring \<Rightarrow> nat" where
  "gap_limit s = length (takeWhile (\<lambda>x. \<not> is_line_terminator x) s)"

definition candidates :: "jsstring \<Rightarrow> nat list" where
  "candidates s = filter (\<lambda>k. arg_end (drop k s) \<noteq> None) [0..<Suc (gap_limit s)]"

definition next_paren :: "jsstring \<Rightarrow> nat \<Rightarrow> nat" where
  "next_paren s j = j + length (takeWhile (\<lambda>x. x \<noteq> 0x29) (drop j s))"

section \<open>Concrete inputs\<close>

text \<open>Environments, stores and documents at which the theorems below are evaluated.\<close>

text \<open>An identifier as the store prints it: 24 hexadecimal digits. Any other text is
  not an identifier.\<close>

definition hex_digit :: "code_unit \<Rightarrow> nat option" where
  "hex_digit c =
     (if 0x30 \<le> c \<and> c \<le> 0x39 then Some (unat c - 0x30)
      else if 0x61 \<le> c \<and> c \<le> 0x66 then Some (unat c - 0x61 + 10)
      else if 0x41 \<le> c \<and> c \<le> 0x46 then Some (unat c - 0x41 + 10)
      else None)"

fun hex_value :: "nat \<Rightarrow> jsstring \<Rightarrow> nat option" where
  "hex_value acc [] = Some acc"
| "hex_value acc (c # cs) =
     (case hex_digit c of None \<Rightarrow> None | Some d \<Rightarrow> hex_value (16 * acc + d) cs)"

definition hex_object_id :: "jsstring \<Rightarrow> object_id option" where
  "hex_object_id t = (if length t = 24 then hex_value 0 t else None)"

definition env_without_key :: env where
  "env_without_key =
     \<lparr>OPENAI_API_KEY = None, chat_completions = (\<lambda>prompt. None), now = 0,
      cast_id = hex_object_id\<rparr>"

definition env_with_key :: env where
  "env_with_key =
     \<lparr>OPENAI_API_KEY = Some (js ''sk-test''),
      chat_completions = (\<lambda>prompt. Some (Reply [js ''Consider a hash set''] None 120)),
      now = 1000,
      cast_id = hex_object_id\<rparr>"

definition empty_world :: world where
  "empty_world = \<lparr>problems = Map.empty, users = Map.empty, interactions = [], effects = []\<rparr>"

definition practice_world :: world where
  "practice_world =
     \<lparr>problems = [1 \<mapsto> \<lparr>title = js ''Two Sum'', description = js ''<p>Find <b>two</b> numbers</p>'',
                          difficulty = js ''Easy''\<rparr>],
      users = [3 \<mapsto> \<lparr>stats_totalSolved = 12, stats_rating = 1500\<rparr>],
      interactions = [],
      effects = []\<rparr>"

definition sample_interaction :: "object_id \<Rightarrow> object_id \<Rightarrow> nat \<Rightarrow> interaction" where
  "sample_interaction i owner created =
     \<lparr>ident = i, user = owner, type = hint, ctx = empty_context, query = js ''Hint request'',
      response = js ''Try two pointers'', tokens_used = 0, response_time = 80,
      feedback = None, createdAt = created\<rparr>"


definition history_world :: world where
  "history_world =
     \<lparr>problems = Map.empty, users = Map.empty,
      interactions =
        map (\<lambda>k. sample_interaction k (if k < 45 then 3 else 4) (500 + k)) [0..<50],
      effects = []\<rparr>"

section \<open>Properties of the string operations\<close>

lemma includes_sublist: "str_includes s t \<longleftrightarrow> sublist t s"
  by (induction s) (simp_all add: sublist_Cons_right)

lemma split_not_Nil: "split sep s \<noteq> []"
  by (induction s) (simp_all split: list.splits)

lemma join_Cons_piece: "join sep ((x # piece) # pieces) = x # join sep (piece # pieces)"
  by (cases pieces) simp_all

lemma join_split: "join [sep] (split sep s) = s"
proof (induction s)
  case Nil
  show ?case by simp
next
  case (Cons x xs)
  obtain piece pieces where sp: "split sep xs = piece # pieces"
    using split_not_Nil[of sep xs] by (cases "split sep xs") auto
  show ?case
  proof (cases "x = sep")
    case True
    with Cons sp show ?thesis by simp
  next
    case False
    with Cons sp show ?thesis by (simp add: join_Cons_piece)
  qed
qed

lemma split_pieces_free: "piece \<in> set (split sep s) \<Longrightarrow> sep \<notin> set piece"
proof (induction s arbitrary: piece)
  case Nil
  then show ?case by simp
next
  case (Cons x xs)
  then show ?case
    by (cases "split sep xs") (auto split: if_splits)
qed

lemma trim_decompose:
  "s = takeWhile is_trimmable s @ trim s @ rev (takeWhile is_trimmable (rev (dropWhile is_trimmable s)))"
proof -
  let ?t = "dropWhile is_trimmable s"
  have "rev ?t = takeWhile is_trimmable (rev ?t) @ dropWhile is_trimmable (rev ?t)"
    by simp
  then have "?t = rev (dropWhile is_trimmable (rev ?t)) @ rev (takeWhile is_trimmable (rev ?t))"
    by (metis rev_append rev_rev_ident)
  then have "?t = trim s @ rev (takeWhile is_trimmable (rev ?t))"
    by (simp add: trim_def)
  moreover have "s = takeWhile is_trimmable s @ ?t"
    by simp
  ultimately show ?thesis by metis
qed

lemma trim_ends:
  assumes "trim s \<noteq> []"
  shows "\<not> is_trimmable (hd (trim s))" and "\<not> is_trimmable (last (trim s))"
proof -
  let ?t = "dropWhile is_trimmable s"
  let ?u = "dropWhile is_trimmable (rev ?t)"
  have u: "?u \<noteq> []" using assms by (simp add: trim_def)
  then have "\<not> is_trimmable (hd ?u)" by (rule hd_dropWhile)
  then show "\<not> is_trimmable (last (trim s))"
    using u by (simp add: trim_def last_rev)
  have "?t \<noteq> []" using u by (cases ?t) simp_all
  then have h: "\<not> is_trimmable (hd ?t)" by (rule hd_dropWhile)
  show "\<not> is_trimmable (hd (trim s))"
  proof (cases "is_trimmable (last ?t)")
    case False
    then have "?u = rev ?t"
      using \<open>?t \<noteq> []\<close> by (cases "rev ?t") (simp_all add: last_rev[symmetric] hd_rev)
    then have "trim s = ?t" by (simp add: trim_def)
    with h show ?thesis by simp
  next
    case True
    have "hd (rev ?u) = hd ?t"
    proof -
      have "rev ?t = takeWhile is_trimmable (rev ?t) @ ?u" by simp
      then have "?t = rev ?u @ rev (takeWhile is_trimmable (rev ?t))"
        by (metis rev_append rev_rev_ident)
      moreover have "rev ?u \<noteq> []" using u by simp
      ultimately show ?thesis by (metis hd_append2)
    qed
    with h show ?thesis by (simp add: trim_def)
  qed
qed

lemma push_matching_filter:
  "push_matching cond lines out = out @ map trim (filter cond lines)"
  by (induction lines arbitrary: out) simp_all

section \<open>Properties of the matcher\<close>

lemma upt_Suc_Suc: "[0..<Suc (Suc n)] = 0 # map Suc [0..<Suc n]"
  by (metis map_Suc_upt upt_conv_Cons zero_less_Suc)

lemma star_matches_Lazy:
  "star_matches p Lazy s = map (\<lambda>k. drop k s) [0..<Suc (length (takeWhile p s))]"
proof (induction s)
  case Nil
  show ?case by simp
next
  case (Cons x xs)
  show ?case
  proof (cases "p x")
    case True
    with Cons show ?thesis by (simp add: upt_Suc_Suc comp_def del: upt_Suc)
  next
    case False
    then show ?thesis by simp
  qed
qed

lemma star_matches_Greedy:
  "star_matches p Greedy s = map (\<lambda>k. drop k s) (rev [0..<Suc (length (takeWhile p s))])"
proof (induction s)
  case Nil
  show ?case by simp
next
  case (Cons x xs)
  show ?case
  proof (cases "p x")
    case True
    with Cons show ?thesis by (simp add: upt_Suc_Suc comp_def rev_map del: upt_Suc)
  next
    case False
    then show ?thesis by simp
  qed
qed

lemma set_star_matches:
  "set (star_matches p g s) = (\<lambda>k. drop k s) ` {..length (takeWhile p s)}"
proof (cases g)
  case Greedy
  then show ?thesis
    by (simp add: star_matches_Greedy lessThan_Suc_atMost[symmetric] atLeast0LessThan del: upt_Suc)
next
  case Lazy
  then show ?thesis
    by (simp add: star_matches_Lazy lessThan_Suc_atMost[symmetric] atLeast0LessThan del: upt_Suc)
qed

lemma drop_in_takeWhile:
  assumes "k < length (takeWhile p s)"
  shows "\<exists>y ys. drop k s = y # ys \<and> p y"
proof -
  have ks: "k < length s"
    using assms length_takeWhile_le[of p s] by simp
  have "p (takeWhile p s ! k)"
    using assms nth_mem set_takeWhileD by metis
  then have "p (s ! k)"
    using assms by (simp add: takeWhile_nth)
  then show ?thesis
    using ks by (metis Cons_nth_drop_Suc)
qed

lemma drop_length_takeWhile: "drop (length (takeWhile p s)) s = dropWhile p s"
  by (metis append_eq_conv_conj takeWhile_dropWhile_id)

lemma chr_after_star:
  assumes "\<not> p c"
  shows "(\<exists>rest \<in> set (star_matches p g s). \<exists>t. rest = c # t) \<longleftrightarrow> prefix [c] (dropWhile p s)"
proof
  assume "\<exists>rest \<in> set (star_matches p g s). \<exists>t. rest = c # t"
  then obtain k t where k: "k \<le> length (takeWhile p s)" and d: "drop k s = c # t"
    by (auto simp: set_star_matches)
  have "\<not> k < length (takeWhile p s)"
    using drop_in_takeWhile[of k p s] d assms by auto
  with k have "k = length (takeWhile p s)" by simp
  with d show "prefix [c] (dropWhile p s)"
    by (simp add: drop_length_takeWhile)
next
  assume "prefix [c] (dropWhile p s)"
  then obtain t where "drop (length (takeWhile p s)) s = c # t"
    by (auto simp: drop_length_takeWhile prefix_def)
  then show "\<exists>rest \<in> set (star_matches p g s). \<exists>t. rest = c # t"
    by (auto simp: set_star_matches)
qed

lemma matches_Chr_Lit: "matches False (Chr (Lit c)) pos s \<noteq> [] \<longleftrightarrow> (\<exists>t. s = c # t)"
  by (cases s) auto

lemma cmatch_Digit: "cmatch ic Digit = is_digit"
  by (rule ext) (simp add: is_digit_def)

lemma not_digit_dot: "\<not> is_digit 0x2E"
  by (simp add: is_digit_def)

lemma cu_dot: "cu CHR ''.'' = 0x2E"
  by (simp add: cu_def)

lemma numbered_matches:
  "matches False numbered_re pos s \<noteq> [] \<longleftrightarrow> pos = 0 \<and> starts_numbered s"
proof (cases s)
  case Nil
  then show ?thesis by (simp add: numbered_re_def starts_numbered_def)
next
  case (Cons x xs)
  show ?thesis
  proof (cases "is_digit x")
    case True
    have "(\<exists>rest \<in> set (star_matches is_digit Greedy xs). \<exists>t. rest = 0x2E # t)
            \<longleftrightarrow> prefix [0x2E] (dropWhile is_digit xs)"
      using chr_after_star[of is_digit "0x2E", OF not_digit_dot] .
    with True Cons show ?thesis
      by (simp add: numbered_re_def starts_numbered_def cmatch_Digit cu_dot
            matches_Chr_Lit del: matches.simps(2,3))
  next
    case False
    with Cons show ?thesis
      by (simp add: numbered_re_def starts_numbered_def cmatch_Digit)
  qed
qed

lemma numbered_matches_pos: "0 < pos \<Longrightarrow> matches False numbered_re pos s = []"
  using numbered_matches[of pos s] by auto

lemma search_numbered_pos: "0 < pos \<Longrightarrow> search False numbered_re pos s = None"
  by (induction s arbitrary: pos) (simp_all add: numbered_matches_pos)

lemma js_match_numbered: "js_match False numbered_re line \<noteq> None \<longleftrightarrow> starts_numbered line"
proof (cases "matches False numbered_re 0 line")
  case Nil
  then have "\<not> starts_numbered line"
    using numbered_matches[of 0 line] by simp
  with Nil show ?thesis
    by (cases line) (simp_all add: js_match_def search_numbered_pos)
next
  case (Cons rest rests)
  then have "starts_numbered line"
    using numbered_matches[of 0 line] by simp
  with Cons show ?thesis
    by (cases line) (simp_all add: js_match_def)
qed

lemma matches_Chr_pos: "matches ic (Chr c) pos s = matches ic (Chr c) 0 s"
  by (cases s) simp_all

lemma concat_map_Nil: "(\<And>x. x \<in> set xs \<Longrightarrow> f x = []) \<Longrightarrow> concat (map f xs) = []"
  by (induction xs) simp_all

lemma star_then_chr:
  assumes "\<And>x. cmatch ic c x \<Longrightarrow> \<not> p x"
  shows "concat (map (\<lambda>rest. matches ic (Chr c) (f rest) rest) (star_matches p g t))
           = matches ic (Chr c) 0 (dropWhile p t)"
proof -
  let ?n = "length (takeWhile p t)"
  let ?F = "\<lambda>k. matches ic (Chr c) (f (drop k t)) (drop k t)"
  have early: "?F k = []" if kn: "k < ?n" for k
  proof -
    obtain y ys where "drop k t = y # ys" "p y"
      using drop_in_takeWhile[OF kn] by blast
    then show ?thesis using assms by auto
  qed
  have last: "?F ?n = matches ic (Chr c) 0 (dropWhile p t)"
    using matches_Chr_pos[of ic c _ "dropWhile p t"] by (simp add: drop_length_takeWhile)
  have z: "concat (map ?F [0..<?n]) = []" and zr: "concat (map ?F (rev [0..<?n])) = []"
    using early by (simp_all add: concat_map_Nil)
  show ?thesis
  proof (cases g)
    case Greedy
    then show ?thesis
      using zr last by (simp add: star_matches_Greedy comp_def)
  next
    case Lazy
    then show ?thesis
      using z last by (simp add: star_matches_Lazy comp_def)
  qed
qed


lemma matches_Seq_Chr_Nil: "matches ic (Seq (Chr c) r) pos [] = []"
  by simp



lemma matches_Plus_Chr_Nil: "matches ic (Seq (Plus d g) (Chr c)) pos [] = []"
  by simp

lemma matches_Plus_Chr_Cons:
  assumes "\<And>x. cmatch ic c x \<Longrightarrow> \<not> cmatch ic d x"
  shows "matches ic (Seq (Plus d g) (Chr c)) pos (x # t)
           = (if cmatch ic d x then matches ic (Chr c) 0 (dropWhile (cmatch ic d) t) else [])"
  using star_then_chr[of ic c "cmatch ic d" "\<lambda>rest. pos + (length (x # t) - length rest)" g t]
    assms
  by simp








lemma has_tag_Cons: "has_tag (x # s) \<longleftrightarrow> (if x = 0x3C then 0x3E \<in> set s else has_tag s)"
  by (simp add: has_tag_def)


lemma has_tag_iff: "has_tag s \<longleftrightarrow> (\<exists>a b c. s = a @ 0x3C # b @ 0x3E # c)"
proof
  assume h: "has_tag s"
  let ?a = "takeWhile (\<lambda>c. c \<noteq> 0x3C) s"
  let ?r = "dropWhile (\<lambda>c. c \<noteq> 0x3C) s"
  have ne: "?r \<noteq> []"
    by (metis h has_tag_def empty_iff list.set(1))
  then have "hd ?r = 0x3C" using hd_dropWhile[of "\<lambda>c. c \<noteq> 0x3C" s] by simp
  with ne obtain r' where r: "?r = 0x3C # r'" by (cases ?r) auto
  with h have "0x3E \<in> set r'" by (simp add: has_tag_def)
  then obtain b c where "r' = b @ 0x3E # c" by (meson split_list)
  with r have "s = ?a @ 0x3C # b @ 0x3E # c"
    by (metis takeWhile_dropWhile_id)
  then show "\<exists>a b c. s = a @ 0x3C # b @ 0x3E # c" by blast
next
  assume "\<exists>a b c. s = a @ 0x3C # b @ 0x3E # c"
  then obtain a b c where s: "s = a @ 0x3C # b @ 0x3E # c" by blast
  show "has_tag s"
    unfolding s by (induction a) (simp_all add: has_tag_Cons)
qed






lemma seqs_Cons_matches:
  "matches ic (seqs (r # rs)) pos s =
     concat (map (\<lambda>rest. matches ic (seqs rs) (pos + (length s - length rest)) rest)
                 (matches ic r pos s))"
  by (cases rs) simp_all

lemma ci_prefix_Nil: "ci_prefix [] s"
  by (simp add: ci_prefix_def ci_equal_def)

lemma ci_prefix_Cons:
  "ci_prefix (c # cs) s \<longleftrightarrow>
     (case s of [] \<Rightarrow> False | x # t \<Rightarrow> canonicalize x = canonicalize c \<and> ci_prefix cs t)"
  by (cases s) (auto simp: ci_prefix_def ci_equal_def)

lemma matches_chars:
  "matches True (seqs (map (\<lambda>c. Chr (Lit c)) cs)) pos s =
     (if ci_prefix cs s then [drop (length cs) s] else [])"
proof (induction cs arbitrary: pos s)
  case Nil
  show ?case by (simp add: ci_prefix_Nil)
next
  case (Cons c cs)
  show ?case
  proof (cases s)
    case Nil
    then show ?thesis
      by (simp add: seqs_Cons_matches ci_prefix_Cons del: seqs.simps)
  next
    case (Cons x t)
    then show ?thesis
      using Cons.IH
      by (simp add: seqs_Cons_matches ci_prefix_Cons del: seqs.simps)
  qed
qed

lemma lit_chars: "lit w = seqs (map (\<lambda>c. Chr (Lit c)) (js w))"
  by (simp add: lit_def js_def comp_def)

lemma length_js: "length (js w) = length w"
  by (simp add: js_def)

lemma matches_lit:
  "matches True (lit w) pos s = (if ci_prefix (js w) s then [drop (length w) s] else [])"
  unfolding lit_chars matches_chars length_js ..

lemma ci_prefix_length: "ci_prefix w s \<Longrightarrow> length w \<le> length s"
  by (simp add: ci_prefix_def)

lemma matches_Seq_lit:
  "matches True (Seq (lit w) r) pos s =
     (if ci_prefix (js w) s then matches True r (pos + length w) (drop (length w) s) else [])"
  using ci_prefix_length[of "js w" s] by (simp add: matches_lit length_js)

lemma canonicalize_paren: "canonicalize x = 0x29 \<longleftrightarrow> x = 0x29"
proof
  assume a: "canonicalize x = 0x29"
  show "x = 0x29"
  proof (cases "0x61 \<le> x \<and> x \<le> 0x7A")
    case True
    with a have "x - 0x20 = 0x29" by (simp add: canonicalize_def)
    then have "x = 0x49" by (simp add: diff_eq_eq)
    with True show ?thesis by simp
  next
    case False
    with a show ?thesis by (simp add: canonicalize_def)
  qed
next
  assume "x = 0x29"
  then show "canonicalize x = 0x29" by (simp add: canonicalize_def)
qed

lemma canonicalize_paren_self: "canonicalize 0x29 = 0x29"
  by (simp add: canonicalize_def)

lemma cmatch_not_paren: "cmatch True (NoneOf [0x29]) = (\<lambda>x. x \<noteq> 0x29)"
  by (rule ext) (simp add: canonicalize_paren canonicalize_paren_self)

lemma cmatch_paren: "cmatch True (Lit 0x29) x \<longleftrightarrow> x = 0x29"
  by (simp add: canonicalize_paren canonicalize_paren_self)

lemma cu_paren: "cu CHR '')'' = 0x29"
  by (simp add: cu_def)

lemma matches_Chr_dropWhile_paren:
  "matches True (Chr (Lit 0x29)) 0 (dropWhile (\<lambda>x. x \<noteq> 0x29) t)
     = (if 0x29 \<in> set t then [tl (dropWhile (\<lambda>x. x \<noteq> 0x29) t)] else [])"
proof (cases "dropWhile (\<lambda>x. x \<noteq> 0x29) t")
  case Nil
  then have "0x29 \<notin> set t" by auto
  then show ?thesis unfolding Nil by simp
next
  case (Cons y ys)
  then have y: "y = 0x29" using hd_dropWhile[of "\<lambda>x. x \<noteq> 0x29" t] by simp
  moreover have "0x29 \<in> set t"
    using Cons set_dropWhileD[of "0x29" "\<lambda>x. x \<noteq> 0x29" t] y by simp
  ultimately show ?thesis using Cons by (simp add: canonicalize_paren_self)
qed

lemma tl_dropWhile_drop: "tl (dropWhile p t) = drop (Suc (length (takeWhile p t))) t"
  by (metis drop_Suc drop_length_takeWhile tl_drop)

lemma matches_arg:
  "matches True (Seq (Plus (NoneOf [0x29]) Greedy) (Chr (Lit 0x29))) pos v =
     (if takeWhile (\<lambda>x. x \<noteq> 0x29) v \<noteq> [] \<and> 0x29 \<in> set v
      then [drop (Suc (length (takeWhile (\<lambda>x. x \<noteq> 0x29) v))) v] else [])"
proof (cases v)
  case Nil
  then show ?thesis by simp
next
  case (Cons x t)
  have "matches True (Seq (Plus (NoneOf [0x29]) Greedy) (Chr (Lit 0x29))) pos (x # t) =
          (if x \<noteq> 0x29 then matches True (Chr (Lit 0x29)) 0 (dropWhile (\<lambda>x. x \<noteq> 0x29) t) else [])"
    by (subst matches_Plus_Chr_Cons) (simp_all add: cmatch_not_paren cmatch_paren del: cmatch.simps)
  then show ?thesis
    unfolding Cons by (simp add: matches_Chr_dropWhile_paren tl_dropWhile_drop)
qed

lemma matches_tail:
  "matches True tail_re pos u = (case arg_end u of None \<Rightarrow> [] | Some e \<Rightarrow> [drop e u])"
  by (simp add: tail_re_def matches_Seq_lit matches_arg arg_end_def numeral_2_eq_2
        numeral_3_eq_3 del: matches.simps)

lemma complexity_re_unfold:
  "complexity_re word = Seq (lit word) (Seq (Star Dot Lazy) tail_re)"
  by (simp add: complexity_re_def tail_re_def cu_paren)

lemma concat_map_option:
  "concat (map (\<lambda>k. case g k of None \<Rightarrow> [] | Some e \<Rightarrow> [h k e]) ks) =
     map (\<lambda>k. h k (the (g k))) (filter (\<lambda>k. g k \<noteq> None) ks)"
  by (induction ks) (auto split: option.splits)

lemma cmatch_Dot: "cmatch ic Dot = (\<lambda>x. \<not> is_line_terminator x)"
  by (rule ext) simp

lemma matches_gap_tail:
  "matches True (Seq (Star Dot Lazy) tail_re) pos s =
     map (\<lambda>k. drop (k + the (arg_end (drop k s))) s) (candidates s)"
proof -
  have "matches True (Seq (Star Dot Lazy) tail_re) pos s =
          concat (map (\<lambda>k. case arg_end (drop k s) of None \<Rightarrow> []
                           | Some e \<Rightarrow> [drop e (drop k s)])
                   [0..<Suc (gap_limit s)])"
    by (simp add: star_matches_Lazy matches_tail cmatch_Dot gap_limit_def comp_def
          del: upt_Suc)
  also have "\<dots> = map (\<lambda>k. drop (the (arg_end (drop k s))) (drop k s)) (candidates s)"
    unfolding candidates_def by (rule concat_map_option)
  finally show ?thesis by (simp add: add.commute)
qed

lemma matches_complexity:
  "matches True (complexity_re word) pos s =
     (if ci_prefix (js word) s
      then map (\<lambda>k. drop (k + the (arg_end (drop k (drop (length word) s)))) (drop (length word) s))
             (candidates (drop (length word) s))
      else [])"
  unfolding complexity_re_unfold matches_Seq_lit matches_gap_tail ..

lemma ci_equal_length: "ci_equal a b \<Longrightarrow> length a = length b"
  unfolding ci_equal_def by (rule map_eq_imp_length_eq)

lemma ci_prefix_append: "ci_equal w v \<Longrightarrow> ci_prefix v (w @ rest)"
  using ci_equal_length[of w v] by (simp add: ci_prefix_def)

lemma ci_prefix_split: "ci_prefix v s \<Longrightarrow> \<exists>w rest. s = w @ rest \<and> ci_equal w v \<and> rest = drop (length v) s"
  by (metis append_take_drop_id ci_prefix_def)

lemma takeWhile_stop: "x \<notin> set a \<Longrightarrow> takeWhile (\<lambda>y. y \<noteq> x) (a @ x # post) = a"
  by (induction a) auto

lemma arg_end_Some:
  "arg_end u = Some e \<longleftrightarrow>
     (\<exists>o_paren arg post.
        u = o_paren @ arg @ 0x29 # post \<and> ci_equal o_paren (js ''O('') \<and>
        arg \<noteq> [] \<and> 0x29 \<notin> set arg \<and> e = 3 + length arg)"
proof
  assume a: "arg_end u = Some e"
  let ?v = "drop 2 u"
  let ?arg = "takeWhile (\<lambda>x. x \<noteq> 0x29) ?v"
  from a have cp: "ci_prefix (js ''O('') u" and ne: "?arg \<noteq> []" and mem: "0x29 \<in> set ?v"
    and e: "e = 3 + length ?arg"
    by (auto simp: arg_end_def split: if_splits)
  from cp obtain o_paren where u: "u = o_paren @ ?v" and o: "ci_equal o_paren (js ''O('')"
    using ci_prefix_split[of "js ''O(''" u] by (auto simp: length_js numeral_2_eq_2)
  have dne: "dropWhile (\<lambda>x. x \<noteq> 0x29) ?v \<noteq> []"
    using mem by auto
  then have "hd (dropWhile (\<lambda>x. x \<noteq> 0x29) ?v) = 0x29"
    using hd_dropWhile[of "\<lambda>x. x \<noteq> 0x29" ?v] by simp
  with dne obtain post where d: "dropWhile (\<lambda>x. x \<noteq> 0x29) ?v = 0x29 # post"
    by (cases "dropWhile (\<lambda>x. x \<noteq> 0x29) ?v") auto
  have "?v = ?arg @ dropWhile (\<lambda>x. x \<noteq> 0x29) ?v" by simp
  with d have v: "?v = ?arg @ 0x29 # post" by simp
  have nin: "0x29 \<notin> set ?arg"
    by (auto dest: set_takeWhileD)
  from u v have "u = o_paren @ ?arg @ 0x29 # post" by simp
  with o ne nin e show "\<exists>o_paren arg post.
        u = o_paren @ arg @ 0x29 # post \<and> ci_equal o_paren (js ''O('') \<and>
        arg \<noteq> [] \<and> 0x29 \<notin> set arg \<and> e = 3 + length arg"
    by blast
next
  assume "\<exists>o_paren arg post.
        u = o_paren @ arg @ 0x29 # post \<and> ci_equal o_paren (js ''O('') \<and>
        arg \<noteq> [] \<and> 0x29 \<notin> set arg \<and> e = 3 + length arg"
  then obtain o_paren arg post where u: "u = o_paren @ arg @ 0x29 # post"
    and o: "ci_equal o_paren (js ''O('')" and ne: "arg \<noteq> []" and nin: "0x29 \<notin> set arg"
    and e: "e = 3 + length arg"
    by blast
  have lo: "length o_paren = 2"
    using ci_equal_length[OF o] by (simp add: length_js)
  have cp: "ci_prefix (js ''O('') u"
    unfolding u using o by (rule ci_prefix_append)
  have v: "drop 2 u = arg @ 0x29 # post"
    using lo by (simp add: u)
  have tw: "takeWhile (\<lambda>x. x \<noteq> 0x29) (drop 2 u) = arg"
    unfolding v using nin by (rule takeWhile_stop)
  show "arg_end u = Some e"
    using cp ne e by (simp add: arg_end_def tw) (simp add: v)
qed

lemma gap_limit_iff:
  "k \<le> gap_limit s \<longleftrightarrow>
     (\<exists>gap rest. s = gap @ rest \<and> length gap = k \<and> list_all (\<lambda>x. \<not> is_line_terminator x) gap)"
proof
  assume k: "k \<le> gap_limit s"
  let ?t = "takeWhile (\<lambda>x. \<not> is_line_terminator x) s"
  have "s = take k ?t @ (drop k ?t @ dropWhile (\<lambda>x. \<not> is_line_terminator x) s)"
    by (metis append.assoc append_take_drop_id takeWhile_dropWhile_id)
  moreover have "length (take k ?t) = k"
    using k by (simp add: gap_limit_def)
  moreover have "list_all (\<lambda>x. \<not> is_line_terminator x) (take k ?t)"
    by (auto simp: list_all_iff dest!: in_set_takeD set_takeWhileD)
  ultimately show "\<exists>gap rest. s = gap @ rest \<and> length gap = k \<and>
      list_all (\<lambda>x. \<not> is_line_terminator x) gap"
    by blast
next
  assume "\<exists>gap rest. s = gap @ rest \<and> length gap = k \<and>
      list_all (\<lambda>x. \<not> is_line_terminator x) gap"
  then obtain gap rest where s: "s = gap @ rest" and l: "length gap = k"
    and g: "list_all (\<lambda>x. \<not> is_line_terminator x) gap"
    by blast
  have "takeWhile (\<lambda>x. \<not> is_line_terminator x) (gap @ rest)
          = gap @ takeWhile (\<lambda>x. \<not> is_line_terminator x) rest"
    using g by (simp add: takeWhile_append2 list_all_iff)
  then show "k \<le> gap_limit s"
    by (simp add: gap_limit_def s l[symmetric])
qed

lemma phrase_prefix_iff:
  "(\<exists>m post. s = m @ post \<and> complexity_phrase word m \<and> length m = n) \<longleftrightarrow>
     ci_prefix (js word) s \<and>
     (\<exists>k e. k \<le> gap_limit (drop (length word) s) \<and>
            arg_end (drop k (drop (length word) s)) = Some e \<and> n = length word + k + e)"
proof
  assume "\<exists>m post. s = m @ post \<and> complexity_phrase word m \<and> length m = n"
  then obtain m post w gap o_paren arg where s: "s = m @ post"
    and m: "m = w @ gap @ o_paren @ arg @ [0x29]" and w: "ci_equal w (js word)"
    and g: "list_all (\<lambda>x. \<not> is_line_terminator x) gap" and o: "ci_equal o_paren (js ''O('')"
    and ne: "arg \<noteq> []" and nin: "0x29 \<notin> set arg" and n: "length m = n"
    unfolding complexity_phrase_def by blast
  have lw: "length w = length word"
    using ci_equal_length[OF w] by (simp add: length_js)
  have lo: "length o_paren = 2"
    using ci_equal_length[OF o] by (simp add: length_js)
  have s': "s = w @ (gap @ o_paren @ arg @ 0x29 # post)"
    by (simp add: s m)
  have cp: "ci_prefix (js word) s"
    unfolding s' using w by (rule ci_prefix_append)
  have s1: "drop (length word) s = gap @ (o_paren @ arg @ 0x29 # post)"
    using lw by (simp add: s')
  have k: "length gap \<le> gap_limit (drop (length word) s)"
    unfolding gap_limit_iff using s1 g by blast
  have "drop (length gap) (drop (length word) s) = o_paren @ arg @ 0x29 # post"
    by (simp add: s1)
  then have e: "arg_end (drop (length gap) (drop (length word) s)) = Some (3 + length arg)"
    unfolding arg_end_Some using o ne nin by blast
  have "n = length word + length gap + (3 + length arg)"
    using n lw lo by (simp add: m)
  with cp k e show "ci_prefix (js word) s \<and>
     (\<exists>k e. k \<le> gap_limit (drop (length word) s) \<and>
            arg_end (drop k (drop (length word) s)) = Some e \<and> n = length word + k + e)"
    by blast
next
  assume a: "ci_prefix (js word) s \<and>
     (\<exists>k e. k \<le> gap_limit (drop (length word) s) \<and>
            arg_end (drop k (drop (length word) s)) = Some e \<and> n = length word + k + e)"
  then obtain k e where cp: "ci_prefix (js word) s"
    and k: "k \<le> gap_limit (drop (length word) s)"
    and e: "arg_end (drop k (drop (length word) s)) = Some e" and n: "n = length word + k + e"
    by blast
  from cp obtain w where s: "s = w @ drop (length word) s" and w: "ci_equal w (js word)"
    using ci_prefix_split[of "js word" s] by (auto simp: length_js)
  have lw: "length w = length word"
    using ci_equal_length[OF w] by (simp add: length_js)
  from k obtain gap rest where s1: "drop (length word) s = gap @ rest" and lg: "length gap = k"
    and g: "list_all (\<lambda>x. \<not> is_line_terminator x) gap"
    unfolding gap_limit_iff by blast
  have "drop k (drop (length word) s) = rest"
    using lg by (simp add: s1)
  with e obtain o_paren arg post where rest: "rest = o_paren @ arg @ 0x29 # post"
    and o: "ci_equal o_paren (js ''O('')" and ne: "arg \<noteq> []" and nin: "0x29 \<notin> set arg"
    and ee: "e = 3 + length arg"
    unfolding arg_end_Some by blast
  have lo: "length o_paren = 2"
    using ci_equal_length[OF o] by (simp add: length_js)
  let ?m = "w @ gap @ o_paren @ arg @ [0x29]"
  have "s = ?m @ post"
    using s s1 rest by simp
  moreover have "complexity_phrase word ?m"
    unfolding complexity_phrase_def using w g o ne nin by blast
  moreover have "length ?m = n"
    using lw lg lo ee n by simp
  ultimately show "\<exists>m post. s = m @ post \<and> complexity_phrase word m \<and> length m = n"
    by blast
qed

lemma next_paren_Suc: "next_paren s j \<le> next_paren s (Suc j)"
proof (cases "j < length s")
  case True
  then have d: "drop j s = s ! j # drop (Suc j) s"
    by (simp add: Cons_nth_drop_Suc)
  show ?thesis
    unfolding next_paren_def d by simp
next
  case False
  then show ?thesis by (simp add: next_paren_def)
qed

lemma next_paren_mono: "j \<le> j' \<Longrightarrow> next_paren s j \<le> next_paren s j'"
  by (rule lift_Suc_mono_le[of "next_paren s"]) (rule next_paren_Suc)

lemma arg_end_next_paren:
  "arg_end (drop k s) = Some e \<Longrightarrow> k + e = Suc (next_paren s (k + 2))"
  by (auto simp: arg_end_def next_paren_def add.commute split: if_splits)

lemma arg_end_mono:
  assumes "k \<le> k'" and "arg_end (drop k s) = Some e" and "arg_end (drop k' s) = Some e'"
  shows "k + e \<le> k' + e'"
  using arg_end_next_paren[OF assms(2)] arg_end_next_paren[OF assms(3)]
    next_paren_mono[of "k + 2" "k' + 2" s] assms(1)
  by simp

lemma filter_upt_head:
  assumes "filter P [0..<n] = k0 # ks"
  shows "P k0 \<and> k0 < n \<and> (\<forall>k < n. P k \<longrightarrow> k0 \<le> k)"
proof -
  have mem: "k0 \<in> set (filter P [0..<n])"
    using assms by simp
  have "sorted (filter P [0..<n])"
    by (rule sorted_wrt_filter) simp
  then have "\<forall>k \<in> set ks. k0 \<le> k"
    using assms by simp
  moreover have "set (filter P [0..<n]) = insert k0 (set ks)"
    using assms by simp
  ultimately have "\<forall>k \<in> set (filter P [0..<n]). k0 \<le> k"
    by auto
  with mem show ?thesis by auto
qed

lemma match_head:
  assumes "matches True (complexity_re word) pos s = rest # others"
  shows "\<exists>m. s = m @ rest \<and> complexity_phrase word m \<and>
           (\<forall>m' post'. s = m' @ post' \<and> complexity_phrase word m' \<longrightarrow> length m \<le> length m')"
proof -
  let ?s1 = "drop (length word) s"
  from assms have cp: "ci_prefix (js word) s"
    by (auto simp: matches_complexity split: if_splits)
  with assms obtain k0 ks where c: "candidates ?s1 = k0 # ks"
    and rest: "rest = drop (k0 + the (arg_end (drop k0 ?s1))) ?s1"
    by (auto simp: matches_complexity)
  from c have h: "arg_end (drop k0 ?s1) \<noteq> None \<and> k0 < Suc (gap_limit ?s1) \<and>
      (\<forall>k < Suc (gap_limit ?s1). arg_end (drop k ?s1) \<noteq> None \<longrightarrow> k0 \<le> k)"
    unfolding candidates_def by (rule filter_upt_head)
  then obtain e0 where e0: "arg_end (drop k0 ?s1) = Some e0" by auto
  from h have k0: "k0 \<le> gap_limit ?s1" by simp
  let ?n = "length word + k0 + e0"
  from cp k0 e0 obtain m post where s: "s = m @ post" and ph: "complexity_phrase word m"
    and lm: "length m = ?n"
    using phrase_prefix_iff[of s word ?n] by blast
  have "post = drop ?n s"
    using s lm by (metis append_eq_conv_conj)
  also have "\<dots> = drop (k0 + e0) ?s1"
    by (simp add: add.commute add.left_commute)
  finally have pr: "post = rest"
    using rest e0 by simp
  have least: "length m \<le> length m'" if a: "s = m' @ post' \<and> complexity_phrase word m'"
    for m' post'
  proof -
    from a obtain k e where k: "k \<le> gap_limit ?s1" and e: "arg_end (drop k ?s1) = Some e"
      and n': "length m' = length word + k + e"
      using phrase_prefix_iff[of s word "length m'"] by blast
    from h k e have "k0 \<le> k" by simp
    then have "k0 + e0 \<le> k + e"
      using e0 e by (rule arg_end_mono)
    with lm n' show ?thesis by simp
  qed
  from s pr ph least show ?thesis by blast
qed

lemma match_none:
  assumes "matches True (complexity_re word) pos s = []"
  shows "\<not> (\<exists>m post. s = m @ post \<and> complexity_phrase word m)"
proof
  let ?s1 = "drop (length word) s"
  assume "\<exists>m post. s = m @ post \<and> complexity_phrase word m"
  then obtain m post where "s = m @ post \<and> complexity_phrase word m \<and> length m = length m"
    by blast
  then obtain k e where cp: "ci_prefix (js word) s" and k: "k \<le> gap_limit ?s1"
    and e: "arg_end (drop k ?s1) = Some e"
    using phrase_prefix_iff[of s word "length m"] by blast
  from k e have "k \<in> set (candidates ?s1)"
    by (simp add: candidates_def less_Suc_eq_le del: upt_Suc)
  then have "candidates ?s1 \<noteq> []" by auto
  with cp assms show False
    by (simp add: matches_complexity)
qed

lemma star_matches_suffix: "rest \<in> set (star_matches p g s) \<Longrightarrow> suffix rest s"
  by (auto simp: set_star_matches suffix_drop)

lemma matches_suffix: "rest \<in> set (matches ic r pos s) \<Longrightarrow> suffix rest s"
proof (induction r arbitrary: pos s rest)
  case Eps
  then show ?case by simp
next
  case (Chr c)
  then show ?case by (cases s) (auto split: if_splits simp: suffix_ConsI)
next
  case Bol
  then show ?case by (simp split: if_splits)
next
  case (Seq r1 r2)
  then obtain mid where "mid \<in> set (matches ic r1 pos s)"
    and "rest \<in> set (matches ic r2 (pos + (length s - length mid)) mid)"
    by auto
  then have "suffix mid s" and "suffix rest mid"
    using Seq.IH by blast+
  then show ?case by (meson suffix_order.trans)
next
  case (Alt r1 r2)
  then show ?case by auto
next
  case (Star c g)
  then show ?case by (simp add: star_matches_suffix)
next
  case (Plus c g)
  then show ?case
    by (cases s) (auto split: if_splits dest!: star_matches_suffix simp: suffix_ConsI)
next
  case (Opt c g)
  then show ?case
    by (cases s; cases g) (auto split: if_splits simp: suffix_ConsI)
qed

lemma matched_text:
  assumes "matches ic r pos s = rest # others"
  shows "s = take (length s - length rest) s @ rest"
proof -
  have "suffix rest s"
    using assms matches_suffix[of rest ic r pos s] by simp
  then obtain m where "s = m @ rest" by (auto simp: suffix_def)
  then show ?thesis by (metis add_diff_cancel_right' append_eq_conv_conj length_append)
qed

lemma search_None:
  "search ic r pos s = None \<Longrightarrow> s = pre @ t \<Longrightarrow> matches ic r (pos + length pre) t = []"
proof (induction s arbitrary: pos pre)
  case Nil
  then show ?case by (simp split: list.splits)
next
  case (Cons x xs)
  show ?case
  proof (cases pre)
    case Nil
    with Cons.prems(2) have "t = x # xs" by simp
    with Cons.prems(1) Nil show ?thesis by (simp split: list.splits)
  next
    case c: (Cons y ys)
    with Cons.prems have "search ic r (Suc pos) xs = None" and "xs = ys @ t"
      by (simp_all split: list.splits)
    then have "matches ic r (Suc pos + length ys) t = []"
      by (rule Cons.IH)
    with c show ?thesis by simp
  qed
qed

lemma search_Some:
  "search ic r pos s = Some (p, m) \<Longrightarrow>
     \<exists>pre t rest others.
       s = pre @ t \<and> p = pos + length pre \<and>
       matches ic r p t = rest # others \<and> t = m @ rest \<and>
       (\<forall>pre' t'. s = pre' @ t' \<and> length pre' < length pre \<longrightarrow>
          matches ic r (pos + length pre') t' = [])"
proof (induction s arbitrary: pos)
  case Nil
  then obtain rest others where mt: "matches ic r pos [] = rest # others" and p: "p = pos"
    and m: "m = []"
    by (auto split: list.splits)
  from matched_text[OF mt] have "rest = []" by simp
  with mt p m show ?case
    by (intro exI[of _ "[]"] exI[of _ others]) simp
next
  case (Cons x xs)
  show ?case
  proof (cases "matches ic r pos (x # xs)")
    case Nil
    with Cons.prems have "search ic r (Suc pos) xs = Some (p, m)" by simp
    from Cons.IH[OF this] obtain pre t rest others where xs: "xs = pre @ t"
      and p: "p = Suc pos + length pre" and mt: "matches ic r p t = rest # others"
      and t: "t = m @ rest"
      and least: "\<forall>pre' t'. xs = pre' @ t' \<and> length pre' < length pre \<longrightarrow>
          matches ic r (Suc pos + length pre') t' = []"
      by blast
    have l2: "matches ic r (pos + length pre') t' = []"
      if a: "x # xs = pre' @ t' \<and> length pre' < length (x # pre)" for pre' t'
    proof (cases pre')
      case Nil
      with a have "t' = x # xs" by simp
      with Nil \<open>matches ic r pos (x # xs) = []\<close> show ?thesis by simp
    next
      case c: (Cons y ys)
      with a have "xs = ys @ t' \<and> length ys < length pre" by simp
      with least have "matches ic r (Suc pos + length ys) t' = []" by blast
      with c show ?thesis by simp
    qed
    show ?thesis
      apply (rule exI[of _ "x # pre"], rule exI[of _ t], rule exI[of _ rest])
      apply (rule exI[of _ others])
      using xs p mt t l2 by simp
  next
    case c: (Cons rest others)
    with Cons.prems have p: "p = pos" and m: "m = take (length (x # xs) - length rest) (x # xs)"
      by simp_all
    from matched_text[OF c] m have t: "x # xs = m @ rest" by simp
    show ?thesis
      apply (rule exI[of _ "[]"], rule exI[of _ "x # xs"], rule exI[of _ rest])
      apply (rule exI[of _ others])
      using p c t by simp
  qed
qed

lemma js_match_first_phrase:
  "first_phrase word content (js_match True (complexity_re word) content)"
proof (cases "search True (complexity_re word) 0 content")
  case None
  have "\<not> (\<exists>pre m post. content = pre @ m @ post \<and> complexity_phrase word m)"
  proof
    assume "\<exists>pre m post. content = pre @ m @ post \<and> complexity_phrase word m"
    then obtain pre m post where c: "content = pre @ (m @ post)" and ph: "complexity_phrase word m"
      by auto
    from search_None[OF None c]
    have "matches True (complexity_re word) (0 + length pre) (m @ post) = []" .
    from match_none[OF this] ph show False by blast
  qed
  with None show ?thesis
    by (simp add: first_phrase_def js_match_def)
next
  case (Some pm)
  obtain p m where pm: "pm = (p, m)" by (cases pm)
  from search_Some[OF Some[unfolded pm]]
  obtain pre t rest others where c: "content = pre @ t" and p: "p = 0 + length pre"
    and mt: "matches True (complexity_re word) p t = rest # others" and t: "t = m @ rest"
    and least: "\<forall>pre' t'. content = pre' @ t' \<and> length pre' < length pre \<longrightarrow>
          matches True (complexity_re word) (0 + length pre') t' = []"
    by blast
  from match_head[OF mt] obtain m0 where t0: "t = m0 @ rest" and ph0: "complexity_phrase word m0"
    and short: "\<forall>m' post'. t = m' @ post' \<and> complexity_phrase word m' \<longrightarrow> length m0 \<le> length m'"
    by blast
  from t t0 have m0: "m0 = m" by simp
  have first: "length pre \<le> length pre' \<and> (length pre' = length pre \<longrightarrow> length m \<le> length m')"
    if a: "content = pre' @ m' @ post' \<and> complexity_phrase word m'" for pre' m' post'
  proof -
    have le: "length pre \<le> length pre'"
    proof (rule ccontr)
      assume "\<not> length pre \<le> length pre'"
      with a least have "matches True (complexity_re word) (0 + length pre') (m' @ post') = []"
        by simp
      from match_none[OF this] a show False by blast
    qed
    have "length m \<le> length m'" if eq: "length pre' = length pre"
    proof -
      from a c eq have "pre' = pre \<and> m' @ post' = t"
        by (metis append_eq_append_conv)
      with a short m0 show ?thesis by blast
    qed
    with le show ?thesis by blast
  qed
  have "content = pre @ m @ rest"
    using c t by simp
  with ph0 m0 first have "\<exists>pre post.
             content = pre @ m @ post \<and> complexity_phrase word m \<and>
             (\<forall>pre' m' post'.
                content = pre' @ m' @ post' \<and> complexity_phrase word m' \<longrightarrow>
                length pre \<le> length pre' \<and>
                (length pre' = length pre \<longrightarrow> length m \<le> length m'))"
    by blast
  with Some pm show ?thesis
    by (simp add: first_phrase_def js_match_def)
qed

section \<open>Properties of the handlers\<close>

lemma effects_of_same: "effects_of w w = []"
  by (simp add: effects_of_def)

lemma effects_of_append: "effects_of w (w\<lparr>effects := effects w @ xs\<rparr>) = xs"
  by (simp add: effects_of_def)

lemma fold_max_ge: "a \<le> fold max xs (a::nat)"
  by (induction xs arbitrary: a) (auto intro: order_trans[OF max.cobounded2])

lemma fold_max_mem: "x \<in> set xs \<Longrightarrow> x \<le> fold max xs (a::nat)"
proof (induction xs arbitrary: a)
  case Nil
  then show ?case by simp
next
  case (Cons y ys)
  show ?case
  proof (cases "x = y")
    case True
    have "y \<le> max y a" by simp
    also have "\<dots> \<le> fold max ys (max y a)" by (rule fold_max_ge)
    finally show ?thesis using True by simp
  next
    case False
    with Cons show ?thesis by simp
  qed
qed

lemma fresh_id_unused: "find (\<lambda>d. ident d = fresh_id docs) docs = None"
proof -
  have "ident d < fresh_id docs" if "d \<in> set docs" for d
    using fold_max_mem[of "ident d" "map ident docs" 0] that
    by (simp add: fresh_id_def less_Suc_eq_le)
  then show ?thesis
    by (fastforce simp: find_None_iff)
qed

lemma save_new:
  "save (new_AIInteraction e w userId t c q r) w =
     w\<lparr>interactions := interactions w @ [new_AIInteraction e w userId t c q r],
       effects := effects w @ [SaveInteraction (fresh_id (interactions w))]\<rparr>"
  by (simp add: save_def new_AIInteraction_def fresh_id_unused)

lemma effects_save: "effects (save i w) = effects w @ [SaveInteraction (ident i)]"
  by (simp add: save_def)

lemma callOpenAI_cases:
  "callOpenAI e prompt w = (x, w') \<Longrightarrow>
     w' = w\<lparr>effects := effects w @ [CompletionCall prompt]\<rparr> \<and>
     ((\<exists>err. x = Inl err) \<or>
      (\<exists>first others reply. chat_completions e prompt = Some reply \<and>
          choices reply = first # others \<and>
          x = Inr (Completion first (data_usage reply) (elapsed reply))))"
  by (auto simp: callOpenAI_def Let_def split: option.splits list.splits)

lemma persisted_onceI:
  assumes "chat_completions e prompt = Some reply" and "choices reply = first # others"
    and "effects w2 = effects w @ pre @ [CompletionCall prompt]"
    and "interactions w2 = interactions w"
    and "\<not> list_ex is_write pre" and "\<not> list_ex is_completion_call pre"
  shows "persisted_once e userId w
           (save (new_AIInteraction e w2 userId t c q
                    (Completion first (data_usage reply) (elapsed reply))) w2)"
proof -
  let ?i = "new_AIInteraction e w2 userId t c q (Completion first (data_usage reply) (elapsed reply))"
  have eff: "effects_of w (save ?i w2) = pre @ [CompletionCall prompt, SaveInteraction (ident ?i)]"
    using assms(3) by (simp add: effects_save effects_of_def)
  have fw: "filter is_write pre = []" and fc: "filter is_completion_call pre = []"
    using assms(5,6) by (simp_all add: list_ex_iff filter_empty_conv)
  have ints: "interactions (save ?i w2) = interactions w @ [?i]"
    using assms(4) by (simp add: save_new)
  have fields: "user ?i = userId" "response ?i = first" "feedback ?i = None"
    "tokens_used ?i =
       (case data_usage reply of
          None \<Rightarrow> 0
        | Some info \<Rightarrow> (case total_tokens info of None \<Rightarrow> 0 | Some n \<Rightarrow> n))"
    by (simp_all add: new_AIInteraction_def tokens_of_def)
  have "filter is_write (effects_of w (save ?i w2)) = [SaveInteraction (ident ?i)]"
    and "filter is_completion_call (effects_of w (save ?i w2)) = [CompletionCall prompt]"
    using fw fc by (simp_all add: eff)
  with ints fields assms(1,2) show ?thesis
    unfolding persisted_once_def by blast
qed





lemma hex_object_id_samples:
  "hex_object_id (js ''000000000000000000000001'') = Some 1"
  "hex_object_id (js ''000000000000000000000002'') = Some 2"
  "hex_object_id (js ''00000000000000000000000a'') = Some 10"
  "hex_object_id (js ''00000000000000000000000b'') = Some 11"
  "hex_object_id (js ''000000000000000000000063'') = Some 99"
  "hex_object_id (js ''abc'') = None"
  by code_simp+

lemma newest_first_mset: "mset (newest_first docs) = mset docs"
  by (simp add: newest_first_def)

lemma newest_first_sorted:
  "sorted_wrt (\<lambda>a b. createdAt b \<le> createdAt a) (newest_first docs)"
proof -
  have "sorted (map (\<lambda>d. - int (createdAt d)) (newest_first docs))"
    by (simp add: newest_first_def)
  then show ?thesis
    by (simp add: sorted_map)
qed

lemma history_world_count:
  "length (filter (history_query 3 None) (interactions history_world)) = 45"
  by code_simp

section \<open>The claims\<close>

subsection \<open>Line extractors\<close>

text \<open>
  C1, as amended. The three keyword extractors return the lines of the completion text
  (split at line feeds, top to bottom) that contain one of their words exactly as it is
  written, in lower case -- "suggestion", "improve" or "consider" for suggestions,
  "approach", "strategy" or "method" for approaches, "fix", "change" or "replace" for
  fixes -- each line trimmed, and only the first 5, 3 and 5 of them.
\<close>

theorem line_extractors_exact:
  "extractSuggestions content =
     exact_line_extractor [''suggestion'', ''improve'', ''consider''] 5 content \<and>
   extractApproach content =
     exact_line_extractor [''approach'', ''strategy'', ''method''] 3 content \<and>
   extractFixes content =
     exact_line_extractor [''fix'', ''change'', ''replace''] 5 content"
  by (simp add: extractSuggestions_def extractApproach_def extractFixes_def
        exact_line_extractor_def slice_def push_matching_filter includes_sublist)

text \<open>
  C1 as stated fails: the source matches with \<^verbatim>\<open>includes\<close>, which distinguishes case. The
  line "Consider a hash map" contains "consider" only when case is disregarded; the
  extractor returns nothing for it, where the claim has the line returned.
\<close>

theorem line_extractors_case_counterexample:
  "extractSuggestions (js ''Consider a hash map'') = [] \<and>
   spec_line_extractor [''suggestion'', ''improve'', ''consider''] 5 (js ''Consider a hash map'')
     = [js ''Consider a hash map'']"
  by code_simp

subsection \<open>Complexity extraction\<close>

text \<open>
  C2. Complexity extraction returns the empty structure when the text does not contain
  "O(" as written. Otherwise the \<open>time\<close> key is the first "time ... O(...)" phrase of
  the text and the \<open>space\<close> key the first "space ... O(...)" phrase, and a key is absent
  exactly when the text has no such phrase. A phrase is the word and "O(" in any case,
  between them any units but line terminators, then one or more units other than ")"
  and a ")"; the first phrase is the one that starts leftmost and, of those starting
  there, the shortest (the gap is matched lazily, up to the closing parenthesis).
\<close>

theorem complexity_extraction:
  "(\<not> sublist (js ''O('') content \<longrightarrow>
      extractComplexity content = \<lparr>time = None, space = None\<rparr>) \<and>
   (sublist (js ''O('') content \<longrightarrow>
      first_phrase ''time'' content (time (extractComplexity content)) \<and>
      first_phrase ''space'' content (space (extractComplexity content)))"
  by (simp add: extractComplexity_def includes_sublist js_match_first_phrase)

theorem complexity_extraction_witness:
  "sublist (js ''O('') (js ''Time complexity: O(n log n), Space complexity: O(n)'') \<and>
   first_phrase ''time'' (js ''Time complexity: O(n log n), Space complexity: O(n)'')
     (Some (js ''Time complexity: O(n log n)'')) \<and>
   first_phrase ''space'' (js ''Time complexity: O(n log n), Space complexity: O(n)'')
     (Some (js ''Space complexity: O(n)'')) \<and>
   \<not> sublist (js ''O('') (js ''time: o(n)'') \<and>
   extractComplexity (js ''time: o(n)'') = \<lparr>time = None, space = None\<rparr>"
proof -
  let ?c = "js ''Time complexity: O(n log n), Space complexity: O(n)''"
  have s: "sublist (js ''O('') ?c"
    by code_simp
  have n: "\<not> sublist (js ''O('') (js ''time: o(n)'')"
    by code_simp
  have v: "extractComplexity ?c =
             \<lparr>time = Some (js ''Time complexity: O(n log n)''),
              space = Some (js ''Space complexity: O(n)'')\<rparr>"
    by code_simp
  from complexity_extraction[of ?c] s
  have "first_phrase ''time'' ?c (time (extractComplexity ?c)) \<and>
        first_phrase ''space'' ?c (space (extractComplexity ?c))"
    by blast
  then have "first_phrase ''time'' ?c (Some (js ''Time complexity: O(n log n)'')) \<and>
        first_phrase ''space'' ?c (Some (js ''Space complexity: O(n)''))"
    by (simp add: v)
  moreover from complexity_extraction[of "js ''time: o(n)''"] n
  have "extractComplexity (js ''time: o(n)'') = \<lparr>time = None, space = None\<rparr>"
    by blast
  ultimately show ?thesis
    using s n by blast
qed

subsection \<open>A code review or a hint for a missing problem\<close>




subsection \<open>Feedback\<close>




subsection \<open>History\<close>

text \<open>
  C5. For a page number and a page size of at least 1 (absent: 1 and 20), the history
  of a user is answered with status 200 and: the documents of the requested page, cut
  out of the list of all documents that the user owns (and that have the requested
  type, when one is given) ordered by creation time, newest first; the number of
  all these documents; and the number of pages, \<open>ceil(total / limit)\<close>. The page holds
  \<open>min limit (total - (page - 1) * limit)\<close> documents: with 45 documents and a page
  size of 20 there are 3 pages, and page 3 holds 5 documents.
\<close>

theorem list_history:
  assumes "page = (case page_param of None \<Rightarrow> 1 | Some p \<Rightarrow> p)"
    and "limit = (case limit_param of None \<Rightarrow> 20 | Some l \<Rightarrow> l)"
    and "1 \<le> page" and "1 \<le> limit"
  shows "\<exists>matching docs.
           get_history userId page_param limit_param type_filter w =
             (respond 200
                (History (map (populate w) docs)
                   (Some (nat \<lceil>real (length matching) / real limit\<rceil>)) page (length matching)),
              w\<lparr>effects := effects w @ [QueryInteractions, CountInteractions]\<rparr>) \<and>
           history_page userId type_filter page limit w matching docs \<and>
           list_all (\<lambda>d. user d = userId) docs \<and>
           list_all (\<lambda>d. case type_filter of None \<Rightarrow> True
                          | Some t \<Rightarrow> t = [] \<or> type_name (type d) = t) docs \<and>
           sorted_wrt (\<lambda>a b. createdAt b \<le> createdAt a) docs \<and>
           length docs = min limit (length matching - (page - 1) * limit) \<and>
           (length matching = 45 \<and> limit = 20 \<longrightarrow>
              nat \<lceil>real (length matching) / real limit\<rceil> = 3 \<and>
              (page = 3 \<longrightarrow> length docs = 5))"
proof -
  let ?m = "newest_first (filter (history_query userId type_filter) (interactions w))"
  let ?d = "take limit (drop ((page - 1) * limit) ?m)"
  have len: "length ?m = length (filter (history_query userId type_filter) (interactions w))"
    using newest_first_mset[of "filter (history_query userId type_filter) (interactions w)"]
    by (metis size_mset)
  have "0 \<le> int page - 1" and "0 \<le> int limit"
    using assms(3) by simp_all
  then have "0 \<le> (int page - 1) * int limit"
    by (rule mult_nonneg_nonneg)
  then have skip: "\<not> (int page - 1) * int limit < 0"
    by simp
  have res: "get_history userId page_param limit_param type_filter w =
             (respond 200
                (History (map (populate w) ?d)
                   (Some (nat \<lceil>real (length ?m) / real limit\<rceil>)) page (length ?m)),
              w\<lparr>effects := effects w @ [QueryInteractions, CountInteractions]\<rparr>)"
    using assms(4) skip
    unfolding get_history_def assms(1)[symmetric] assms(2)[symmetric] Let_def len
    by simp
  have hp: "history_page userId type_filter page limit w ?m ?d"
    by (simp add: history_page_def newest_first_mset newest_first_sorted)
  have sub: "set ?d \<subseteq> set (filter (history_query userId type_filter) (interactions w))"
  proof -
    have "set ?d \<subseteq> set ?m"
      by (meson set_take_subset set_drop_subset subset_trans)
    also have "set ?m = set (filter (history_query userId type_filter) (interactions w))"
      using newest_first_mset by (metis set_mset_mset)
    finally show ?thesis .
  qed
  have own: "list_all (\<lambda>d. user d = userId) ?d"
    using sub by (auto simp: list_all_iff history_query_def)
  have ty: "list_all (\<lambda>d. case type_filter of None \<Rightarrow> True
                          | Some t \<Rightarrow> t = [] \<or> type_name (type d) = t) ?d"
    using sub by (auto simp: list_all_iff history_query_def split: option.splits if_splits)
  have so: "sorted_wrt (\<lambda>a b. createdAt b \<le> createdAt a) ?d"
    by (intro sorted_wrt_take sorted_wrt_drop newest_first_sorted)
  have ln: "length ?d = min limit (length ?m - (page - 1) * limit)"
    by simp
  have ex: "length ?m = 45 \<and> limit = 20 \<longrightarrow>
              nat \<lceil>real (length ?m) / real limit\<rceil> = 3 \<and> (page = 3 \<longrightarrow> length ?d = 5)"
    by (simp add: ln)
  from res hp own ty so ln ex show ?thesis by blast
qed

theorem list_history_witness:
  "\<exists>docs.
     get_history 3 (Some 3) (Some 20) None history_world =
       (respond 200 (History (map (populate history_world) docs) (Some 3) 3 45),
        history_world\<lparr>effects := effects history_world @ [QueryInteractions, CountInteractions]\<rparr>) \<and>
     length docs = 5 \<and>
     sorted_wrt (\<lambda>a b. createdAt b \<le> createdAt a) docs \<and>
     list_all (\<lambda>d. user d = 3) docs"
proof -
  have h: "(3::nat) = (case Some 3 of None \<Rightarrow> 1 | Some p \<Rightarrow> p)"
    "(20::nat) = (case Some 20 of None \<Rightarrow> 20 | Some l \<Rightarrow> l)" "1 \<le> (3::nat)" "1 \<le> (20::nat)"
    by simp_all
  from list_history[OF h, of 3 None history_world]
  obtain matching docs where
    res: "get_history 3 (Some 3) (Some 20) None history_world =
             (respond 200
                (History (map (populate history_world) docs)
                   (Some (nat \<lceil>real (length matching) / real 20\<rceil>)) 3 (length matching)),
              history_world\<lparr>effects := effects history_world @ [QueryInteractions, CountInteractions]\<rparr>)"
    and hp: "history_page 3 None 3 20 history_world matching docs"
    and own: "list_all (\<lambda>d. user d = 3) docs"
    and so: "sorted_wrt (\<lambda>a b. createdAt b \<le> createdAt a) docs"
    and ex: "length matching = 45 \<and> (20::nat) = 20 \<longrightarrow>
              nat \<lceil>real (length matching) / real 20\<rceil> = 3 \<and> ((3::nat) = 3 \<longrightarrow> length docs = 5)"
    by blast
  have "mset matching = mset (filter (history_query 3 None) (interactions history_world))"
    using hp by (simp only: history_page_def)
  then have "length matching = length (filter (history_query 3 None) (interactions history_world))"
    by (rule mset_eq_length)
  then have n: "length matching = 45"
    by (simp only: history_world_count)
  with ex have "nat \<lceil>real (length matching) / real 20\<rceil> = 3" and "length docs = 5"
    by simp_all
  with res n own so show ?thesis
    by auto
qed

subsection \<open>Missing credential\<close>

text \<open>
  C6. Without the credential in the environment (unset, or set to the empty text),
  each of the four generation endpoints answers with status 500 and the message
  "AI service not configured", and nothing has happened before: no lookup, no
  completion call, no write; the stores and the trace are as they were.
\<close>

theorem unconfigured_generation:
  assumes "\<not> configured e" and "is_generation req"
  shows "router e userId req w =
           (respond 500 (Message (js ''AI service not configured'')), w)"
  using assms
  by (cases req)
     (simp_all add: configured_def post_code_review_def post_roadmap_def post_hint_def
        post_debug_def)

theorem unconfigured_generation_witness:
  "\<not> configured env_without_key \<and> is_generation (HintRequest (Some (js ''000000000000000000000007'')) None None) \<and>
   router env_without_key 3 (HintRequest (Some (js ''000000000000000000000007'')) None None) empty_world =
     (respond 500 (Message (js ''AI service not configured'')), empty_world)"
proof -
  have c: "\<not> configured env_without_key"
    by (simp add: configured_def env_without_key_def truthy_def)
  have g: "is_generation (HintRequest (Some (js ''000000000000000000000007'')) None None)"
    by simp
  show ?thesis
    using c g unconfigured_generation[OF c g, of 3 empty_world] by simp
qed

subsection \<open>One interaction for each successful generation\<close>

text \<open>
  C7. A generation request (any of the four types) that ends with status 200 has made
  one completion call and one write: the interaction collection has grown by exactly
  one document, owned by the caller and holding the completion text, and its
  \<open>tokens_used\<close> is 0 when the reply of the service has no usage data (or no total in it)
  and the reported total otherwise.
\<close>

theorem generation_persists_once:
  assumes "is_generation req" and "router e userId req w = (r, w')" and "status r = 200"
  shows "persisted_once e userId w w'"
proof (cases req)
  case (CodeReviewRequest code language problemId)
  show ?thesis
    using assms(2,3) unfolding CodeReviewRequest
    by (auto simp: post_code_review_def find_problem_def respond_def Let_def
          split: if_splits option.splits prod.splits sum.splits
          dest!: callOpenAI_cases intro!: persisted_onceI[where pre="[FindProblem problemId]"])
next
  case (RoadmapRequest goals currentLevel timeCommitment preferredTopics)
  show ?thesis
    using assms(2,3) unfolding RoadmapRequest
    by (auto simp: post_roadmap_def find_user_def respond_def Let_def
          split: if_splits option.splits prod.splits sum.splits
          dest!: callOpenAI_cases intro!: persisted_onceI[where pre="[FindUser userId]"])
next
  case (HintRequest problemId currentCode language)
  show ?thesis
    using assms(2,3) unfolding HintRequest
    by (auto simp: post_hint_def find_problem_def respond_def Let_def
          split: if_splits option.splits prod.splits sum.splits
          dest!: callOpenAI_cases intro!: persisted_onceI[where pre="[FindProblem problemId]"])
next
  case (DebugRequest code language error problemId)
  show ?thesis
    using assms(2,3) unfolding DebugRequest
    by (auto simp: post_debug_def find_problem_def respond_def Let_def
          split: if_splits option.splits prod.splits sum.splits
          dest!: callOpenAI_cases intro!: persisted_onceI[where pre="[FindProblem problemId]"])
next
  case (HistoryRequest page limit type_filter)
  with assms(1) show ?thesis by simp
next
  case (FeedbackRequest interactionId helpful rating comment)
  with assms(1) show ?thesis by simp
qed

theorem generation_persists_once_witness:
  "is_generation (CodeReviewRequest (js ''x = 1'') (js ''python'')
                          (Some (js ''000000000000000000000001''))) \<and>
   status (fst (router env_with_key 3 (CodeReviewRequest (js ''x = 1'') (js ''python'')
                          (Some (js ''000000000000000000000001'')))
                  practice_world)) = 200 \<and>
   persisted_once env_with_key 3 practice_world
     (snd (router env_with_key 3 (CodeReviewRequest (js ''x = 1'') (js ''python'')
                          (Some (js ''000000000000000000000001'')))
             practice_world)) \<and>
   map tokens_used
     (interactions
        (snd (router env_with_key 3 (CodeReviewRequest (js ''x = 1'') (js ''python'')
                          (Some (js ''000000000000000000000001'')))
                practice_world))) = [0]"
proof -
  let ?req = "CodeReviewRequest (js ''x = 1'') (js ''python'')
                (Some (js ''000000000000000000000001''))"
  let ?res = "router env_with_key 3 ?req practice_world"
  have g: "is_generation ?req" by simp
  have key: "truthy (OPENAI_API_KEY env_with_key)"
    by (simp add: env_with_key_def truthy_def js_def)
  have st: "status (fst ?res) = 200"
    using key
    by (simp add: post_code_review_def find_problem_def problem_by_id_def problem_id_def
          hex_object_id_samples practice_world_def
          callOpenAI_def env_with_key_def respond_def Let_def)
  have tk: "map tokens_used (interactions (snd ?res)) = [0]"
    using key
    by (simp add: post_code_review_def find_problem_def problem_by_id_def problem_id_def
          hex_object_id_samples practice_world_def
          callOpenAI_def env_with_key_def respond_def Let_def save_def new_AIInteraction_def
          tokens_of_def)
  have eq: "?res = (fst ?res, snd ?res)" by simp
  show ?thesis
    using g st tk generation_persists_once[OF g eq st] by simp
qed

subsection \<open>Roadmap phases\<close>

text \<open>
  C8, as amended. Roadmap-phase extraction returns the lines that start with decimal
  digits and a period, or contain "Phase" or "Week" as written, top to bottom, each
  line trimmed of white space at both ends, and only the first 10 of them.
\<close>

theorem roadmap_phases_trimmed:
  "extractRoadmapPhases content = trimmed_roadmap_phases content"
proof -
  have "(\<lambda>line. js_match False numbered_re line \<noteq> None \<or> str_includes line (js ''Phase'') \<or>
               str_includes line (js ''Week'')) = phase_line"
    using js_match_numbered by (intro ext) (simp add: includes_sublist phase_line_def)
  then show ?thesis
    by (simp add: extractRoadmapPhases_def trimmed_roadmap_phases_def slice_def
          push_matching_filter)
qed

theorem roadmap_phases_trimmed_witness:
  "extractRoadmapPhases (js ''1. Arrays\<newline>some notes\<newline>  Week 2: trees  \<newline> 3. late'')
     = [js ''1. Arrays'', js ''Week 2: trees'']"
proof -
  have "trimmed_roadmap_phases (js ''1. Arrays\<newline>some notes\<newline>  Week 2: trees  \<newline> 3. late'')
          = [js ''1. Arrays'', js ''Week 2: trees'']"
    by code_simp
  then show ?thesis
    by (simp only: roadmap_phases_trimmed)
qed

text \<open>
  C8 as stated fails: a collected line is not verbatim but trimmed. The line
  "  Phase 1: arrays" is returned without its two leading spaces.
\<close>

theorem roadmap_phases_verbatim_counterexample:
  "extractRoadmapPhases (js ''  Phase 1: arrays'') = [js ''Phase 1: arrays''] \<and>
   spec_roadmap_phases (js ''  Phase 1: arrays'') = [js ''  Phase 1: arrays'']"
  by code_simp

subsection \<open>Prompts\<close>



subsection \<open>A roadmap for a caller without a profile\<close>

text \<open>
  C10. A roadmap request of a caller without a profile in the user store ends with
  status 500 (the read of \<open>user.stats\<close> throws and the handler catches it: "Failed to
  generate roadmap"; without the credential, "AI service not configured"), never with
  404, and makes no completion call and no write.
\<close>

theorem roadmap_missing_profile:
  assumes "users w userId = None"
  shows "post_roadmap e userId goals currentLevel timeCommitment preferredTopics w =
           (if configured e then
              (respond 500 (Message (js ''Failed to generate roadmap'')),
               w\<lparr>effects := effects w @ [FindUser userId]\<rparr>)
            else (respond 500 (Message (js ''AI service not configured'')), w)) \<and>
         status (fst (post_roadmap e userId goals currentLevel timeCommitment preferredTopics w))
           = 500 \<and>
         interactions (snd (post_roadmap e userId goals currentLevel timeCommitment
                              preferredTopics w)) = interactions w \<and>
         \<not> list_ex is_completion_call
              (effects_of w (snd (post_roadmap e userId goals currentLevel timeCommitment
                                    preferredTopics w))) \<and>
         \<not> list_ex is_write
              (effects_of w (snd (post_roadmap e userId goals currentLevel timeCommitment
                                    preferredTopics w)))"
  using assms
  by (simp add: configured_def post_roadmap_def find_user_def respond_def
        effects_of_same effects_of_append)

theorem roadmap_missing_profile_witness:
  "users practice_world 4 = None \<and>
   post_roadmap env_with_key 4 [js ''interviews''] (js ''beginner'') (js ''5'') [js ''graphs'']
       practice_world =
     (respond 500 (Message (js ''Failed to generate roadmap'')),
      practice_world\<lparr>effects := [FindUser 4]\<rparr>)"
proof -
  have h: "users practice_world 4 = None"
    by (simp add: practice_world_def)
  have c: "configured env_with_key"
    by (simp add: configured_def env_with_key_def truthy_def js_def)
  have e: "effects practice_world = []"
    by (simp add: practice_world_def)
  show ?thesis
    using h c e
      roadmap_missing_profile[OF h, of env_with_key "[js ''interviews'']" "js ''beginner''"
        "js ''5''" "[js ''graphs'']"]
    by simp
qed

end
